theory Spec2Isabelle
  imports Main "HOL-Library.Word"
begin

section \<open>Data model (shared/types.ts, src/agent.ts)\<close>

text \<open>
  \<open>AgentConfig\<close> of shared/types.ts. The optional field \<open>id\<close> is \<open>cfg_id\<close> here
  (the name \<open>id\<close> is the identity function of HOL).
\<close>

record AgentConfig =
  startUrl :: string
  headless :: bool
  scrapeData :: bool
  muteAudio :: bool
  cfg_id :: "string option"

text \<open>The status field of \<open>PuppeteerAgent\<close>: a union of five string literals.\<close>

datatype status = Idle | Running | Stopped | Error | Starting

text \<open>
  Browser and page objects of the automation library are opaque handles. A value thrown
  by a library call (a rejected promise) is an \<open>exn\<close>; every awaited library call has
  an outcome \<open>exn + 'a\<close>, \<open>Inl\<close> being the rejection.
\<close>

type_synonym handle = nat

datatype exn = TimeoutError | TypeError | Failure string

record PuppeteerAgent =
  browser :: "handle option"
  page :: "handle option"
  config :: AgentConfig
  status :: status

text \<open>The constructor: both handles null, status \<open>idle\<close>.\<close>

definition new_PuppeteerAgent :: "AgentConfig \<Rightarrow> PuppeteerAgent" where
  "new_PuppeteerAgent c = \<lparr>browser = None, page = None, config = c, status = Idle\<rparr>"

definition getStatus :: "PuppeteerAgent \<Rightarrow> status" where
  "getStatus a = status a"

definition getConfig :: "PuppeteerAgent \<Rightarrow> AgentConfig" where
  "getConfig a = config a"

section \<open>stop() and start()\<close>

text \<open>
  What the browser answers during one call of \<open>stop()\<close>: the outcome of
  \<open>page.close()\<close> and of \<open>browser.close()\<close> (each is awaited at most once).
\<close>

record stop_env =
  page_close :: "exn + unit"
  browser_close :: "exn + unit"

text \<open>
  A call returns three things: the agent as it can be observed at each suspension point
  (each \<open>await\<close> of a library call), in order; the result, \<open>Inl\<close> when the call
  rejects; and the agent afterwards.

  \<open>stop()\<close>: the \<open>try\<close> block closes the page when there is one and sets the field to
  null only after \<open>close()\<close> has returned; the \<open>catch\<close> block logs; the \<open>finally\<close>
  block closes the browser when there is one, sets that field to null and then sets the
  status. A rejection of \<open>browser.close()\<close> happens inside \<open>finally\<close> and leaves it.
\<close>

definition stop ::
  "stop_env \<Rightarrow> PuppeteerAgent \<Rightarrow> PuppeteerAgent list \<times> (exn + unit) \<times> PuppeteerAgent" where
  "stop e a =
     (let (t1, a1) =
        (case page a of
           None \<Rightarrow> ([], a)
         | Some p \<Rightarrow>
            (case page_close e of
               Inr u \<Rightarrow> ([a], a\<lparr>page := None\<rparr>)
             | Inl err \<Rightarrow> ([a], a)))
      in case browser a1 of
           None \<Rightarrow> (t1, Inr (), a1\<lparr>status := Stopped\<rparr>)
         | Some b \<Rightarrow>
            (case browser_close e of
               Inr u \<Rightarrow> (t1 @ [a1], Inr (), a1\<lparr>browser := None, status := Stopped\<rparr>)
             | Inl err \<Rightarrow> (t1 @ [a1], Inl err, a1)))"

text \<open>
  What the browser answers during one call of \<open>start()\<close>. \<open>chrome_installed\<close> is
  \<open>existsSync\<close> of the local Chrome directory, which selects one of two \<open>launch\<close>
  calls. \<open>cleanup_navigation\<close> answers the \<open>stop()\<close> of the inner \<open>catch\<close>,
  \<open>cleanup_outer\<close> the \<open>stop()\<close> of the outer one. The calls that are not
  awaited (\<open>defaultBrowserContext()\<close>, the logger, \<open>page.on\<close>) are taken to
  return; they assign no field of the agent.
\<close>

record start_env =
  chrome_installed :: bool
  launch_installed :: "exn + handle"
  launch_bundled :: "exn + handle"
  overridePermissions :: "exn + unit"
  newPage :: "exn + handle"
  goto :: "exn + unit"
  evaluate_title :: "exn + string"
  cleanup_navigation :: stop_env
  cleanup_outer :: stop_env

text \<open>The outer \<open>catch\<close> of \<open>start()\<close>: status \<open>error\<close>, \<open>stop()\<close>, rethrow.\<close>

definition start_catch ::
  "start_env \<Rightarrow> exn \<Rightarrow> PuppeteerAgent list \<Rightarrow> PuppeteerAgent \<Rightarrow>
     PuppeteerAgent list \<times> (exn + bool) \<times> PuppeteerAgent" where
  "start_catch e err t a =
     (case stop (cleanup_outer e) (a\<lparr>status := Error\<rparr>) of
        (t', Inl err', a') \<Rightarrow> (t @ t', Inl err', a')
      | (t', Inr u, a') \<Rightarrow> (t @ t', Inl err, a'))"

text \<open>
  The steps of \<open>start()\<close> after \<open>newPage()\<close>: navigation with its own \<open>catch\<close>
  (status \<open>error\<close>, \<open>stop()\<close>, rethrow into the outer \<open>catch\<close>), then status
  \<open>running\<close>, the optional title scrape, and \<open>return true\<close>.
\<close>

definition start_navigate ::
  "start_env \<Rightarrow> PuppeteerAgent list \<Rightarrow> PuppeteerAgent \<Rightarrow>
     PuppeteerAgent list \<times> (exn + bool) \<times> PuppeteerAgent" where
  "start_navigate e t a =
     (case goto e of
        Inl err \<Rightarrow>
          (case stop (cleanup_navigation e) (a\<lparr>status := Error\<rparr>) of
             (t', Inl err', a') \<Rightarrow> start_catch e err' (t @ [a] @ t') a'
           | (t', Inr u, a') \<Rightarrow> start_catch e err (t @ [a] @ t') a')
      | Inr u \<Rightarrow>
          (let a' = a\<lparr>status := Running\<rparr> in
           if scrapeData (config a') then
             (case evaluate_title e of
                Inl err \<Rightarrow> start_catch e err (t @ [a, a']) a'
              | Inr d \<Rightarrow> (t @ [a, a'], Inr True, a'))
           else (t @ [a], Inr True, a')))"

definition start ::
  "start_env \<Rightarrow> PuppeteerAgent \<Rightarrow> PuppeteerAgent list \<times> (exn + bool) \<times> PuppeteerAgent" where
  "start e a =
     (let a1 = a\<lparr>status := Starting\<rparr> in
      case (if chrome_installed e then launch_installed e else launch_bundled e) of
        Inl err \<Rightarrow> start_catch e err [a1] a1
      | Inr b \<Rightarrow>
         (let a2 = a1\<lparr>browser := Some b\<rparr> in
          case overridePermissions e of
            Inl err \<Rightarrow> start_catch e err [a1, a2] a2
          | Inr u \<Rightarrow>
             (case newPage e of
                Inl err \<Rightarrow> start_catch e err [a1, a2, a2] a2
              | Inr p \<Rightarrow> start_navigate e [a1, a2, a2] (a2\<lparr>page := Some p\<rparr>))))"

text \<open>Projections: the result and the agent after the call.\<close>

definition result_of :: "'t \<times> 'r \<times> 's \<Rightarrow> 'r" where
  "result_of x = fst (snd x)"

definition agent_after :: "'t \<times> 'r \<times> 's \<Rightarrow> 's" where
  "agent_after x = snd (snd x)"

definition observed :: "'s list \<times> 'r \<times> 's \<Rightarrow> 's list" where
  "observed x = fst x @ [snd (snd x)]"

section \<open>Awaited calls and try/catch\<close>

text \<open>
  \<open>await x\<close> followed by the rest of a \<open>try\<close> block: a rejection leaves the block,
  a value goes on.
\<close>

definition await :: "exn + 'a \<Rightarrow> ('a \<Rightarrow> exn + 'b) \<Rightarrow> exn + 'b" where
  "await x f = (case x of Inl err \<Rightarrow> Inl err | Inr v \<Rightarrow> f v)"

section \<open>The participants pane (src/agent.ts)\<close>

text \<open>
  The private methods \<open>_openParticipantsPane\<close> and \<open>_closeParticipantsPane\<close> are
  written without the leading underscore. What the page answers while the pane is
  opened: the key press, the wait for the pane (rejects after 5000 ms), and the two
  element queries.
\<close>

record open_env =
  open_press :: "exn + unit"
  open_wait :: "exn + unit"
  open_pane :: "exn + handle option"
  open_content :: "exn + handle option"

definition openParticipantsPane :: "open_env \<Rightarrow> PuppeteerAgent \<Rightarrow> bool" where
  "openParticipantsPane e a =
     (if page a = None then False
      else
        (case
           await (open_press e) (\<lambda>u.
           await (open_wait e) (\<lambda>u.
           await (open_pane e) (\<lambda>shareDiv.
           await (open_content e) (\<lambda>shareDivContent.
             if shareDiv = None \<or> shareDivContent = None then Inr False else Inr True))))
         of Inl err \<Rightarrow> False | Inr r \<Rightarrow> r))"

record close_env =
  close_press :: "exn + unit"
  close_still_open :: "exn + handle option"
  close_button :: "exn + handle option"
  close_click :: "exn + unit"
  close_wait_hidden :: "exn + unit"
  close_viewport :: "(nat \<times> nat) option"
  close_mouse_move :: "exn + unit"

text \<open>
  \<open>_closeParticipantsPane\<close> returns nothing and catches everything; the value here
  says which way it went.
\<close>

datatype close_outcome =
  No_page | Closed_by_key | Closed_by_button | Mouse_moved | No_viewport | Close_error exn

definition closeParticipantsPane :: "close_env \<Rightarrow> PuppeteerAgent \<Rightarrow> close_outcome" where
  "closeParticipantsPane e a =
     (if page a = None then No_page
      else
        (case
           await (close_press e) (\<lambda>u.
           await (close_still_open e) (\<lambda>shareDivStillOpen.
             case shareDivStillOpen of
               None \<Rightarrow> Inr Closed_by_key
             | Some d \<Rightarrow>
                 await (close_button e) (\<lambda>closeButton.
                   case closeButton of
                     Some b \<Rightarrow>
                       await (close_click e) (\<lambda>u.
                       await (close_wait_hidden e) (\<lambda>u. Inr Closed_by_button))
                   | None \<Rightarrow>
                       (case close_viewport e of
                          None \<Rightarrow> Inr No_viewport
                        | Some v \<Rightarrow> await (close_mouse_move e) (\<lambda>u. Inr Mouse_moved)))))
         of Inl err \<Rightarrow> Close_error err | Inr r \<Rightarrow> r))"

section \<open>listParticipants()\<close>

text \<open>
  One participant row: the query for the name element, the text content read from it
  (only when the element exists), and the queries for the two muted icons.
\<close>

record row_env =
  name_query :: "exn + handle option"
  name_text :: "exn + string option"
  video_query :: "exn + handle option"
  audio_query :: "exn + handle option"

record participant =
  name :: "string option"
  videoMuted :: bool
  audioMuted :: bool

definition read_row :: "row_env \<Rightarrow> exn + participant" where
  "read_row r =
     await (name_query r) (\<lambda>nameElement.
     await (case nameElement of None \<Rightarrow> Inr None | Some h \<Rightarrow> name_text r) (\<lambda>nm.
     await (video_query r) (\<lambda>videoElement.
     await (audio_query r) (\<lambda>audioElement.
       Inr \<lparr>name = nm, videoMuted = (videoElement \<noteq> None),
            audioMuted = (audioElement \<noteq> None)\<rparr>))))"

text \<open>
  \<open>Promise.all\<close>: the values in order, or a rejection when one of the promises
  rejects (which rejection is kept matters to the log only).
\<close>

fun promise_all :: "(exn + 'a) list \<Rightarrow> exn + 'a list" where
  "promise_all [] = Inr []"
| "promise_all (x # xs) =
     (case x of
        Inl err \<Rightarrow> Inl err
      | Inr v \<Rightarrow> (case promise_all xs of Inl err \<Rightarrow> Inl err | Inr vs \<Rightarrow> Inr (v # vs)))"

record list_env =
  list_open :: open_env
  list_rows :: "exn + row_env list"
  list_close :: close_env

text \<open>The \<open>try\<close> block of \<open>listParticipants()\<close>; \<open>None\<close> is \<open>null\<close>.\<close>

definition listParticipants_try ::
  "list_env \<Rightarrow> PuppeteerAgent \<Rightarrow> exn + participant list option" where
  "listParticipants_try e a =
     (if \<not> openParticipantsPane (list_open e) a then Inr None
      else
        await (list_rows e) (\<lambda>participantsDivs.
          if participantsDivs = [] then
            (let u = closeParticipantsPane (list_close e) a in Inr None)
          else
            await (promise_all (map read_row participantsDivs)) (\<lambda>participants.
              let u = closeParticipantsPane (list_close e) a in Inr (Some participants))))"

definition listParticipants :: "list_env \<Rightarrow> PuppeteerAgent \<Rightarrow> participant list option" where
  "listParticipants e a =
     (if page a = None then None
      else
        (case listParticipants_try e a of
           Inl err \<Rightarrow> (let u = closeParticipantsPane (list_close e) a in None)
         | Inr r \<Rightarrow> r))"

section \<open>clickShareLinkButton()\<close>

text \<open>
  A JavaScript string is a sequence of 16-bit code units. \<open>lit\<close> is the string of an
  ASCII literal.
\<close>

type_synonym code_unit = "16 word"

type_synonym js_string = "code_unit list"

definition lit :: "string \<Rightarrow> js_string" where
  "lit s = map of_char s"

text \<open>
  The regular expression \<^verbatim>\<open>/https:\/\/jitsi.3git.eu\/[a-zA-Z0-9]+/\<close>: a sequence of atoms
  (a literal character, or the unescaped dot, which matches every code unit but a line
  terminator) followed by one or more alphanumeric code units, taken greedily.
\<close>

datatype atom = Lit char | Dot

definition line_terminator :: "code_unit \<Rightarrow> bool" where
  "line_terminator c \<longleftrightarrow> c = 0x0A \<or> c = 0x0D \<or> c = 0x2028 \<or> c = 0x2029"

definition alnum :: "code_unit \<Rightarrow> bool" where
  "alnum c \<longleftrightarrow>
     (0x61 \<le> c \<and> c \<le> 0x7A) \<or> (0x41 \<le> c \<and> c \<le> 0x5A) \<or> (0x30 \<le> c \<and> c \<le> 0x39)"

fun atom_matches :: "atom \<Rightarrow> code_unit \<Rightarrow> bool" where
  "atom_matches (Lit c) x = (x = of_char c)"
| "atom_matches Dot x = (\<not> line_terminator x)"

definition linkRegex_atoms :: "atom list" where
  "linkRegex_atoms =
     map Lit ''https://jitsi'' @ [Dot] @ map Lit ''3git'' @ [Dot] @ map Lit ''eu/''"

text \<open>Matching the atoms at the start of a string: the rest of the string, or no match.\<close>

fun match_atoms :: "atom list \<Rightarrow> js_string \<Rightarrow> js_string option" where
  "match_atoms [] s = Some s"
| "match_atoms (t # ts) [] = None"
| "match_atoms (t # ts) (x # xs) = (if atom_matches t x then match_atoms ts xs else None)"

text \<open>The match that starts at the first code unit of the string, if there is one.\<close>

definition match_at :: "js_string \<Rightarrow> js_string option" where
  "match_at s =
     (case match_atoms linkRegex_atoms s of
        None \<Rightarrow> None
      | Some r \<Rightarrow>
          (let tl = takeWhile alnum r in
           if tl = [] then None else Some (take (length linkRegex_atoms) s @ tl)))"

text \<open>
  \<open>inviteLink.match(linkRegex)\<close> followed by \<open>match ? match[0] : null\<close>: the leftmost
  match.
\<close>

fun regex_match :: "js_string \<Rightarrow> js_string option" where
  "regex_match [] = None"
| "regex_match (c # cs) =
     (case match_at (c # cs) of Some m \<Rightarrow> Some m | None \<Rightarrow> regex_match cs)"

text \<open>
  A string that matches the pattern from its first to its last code unit: the atoms, then
  one or more alphanumeric code units.
\<close>

definition link_shaped :: "js_string \<Rightarrow> bool" where
  "link_shaped m \<longleftrightarrow>
     (\<exists>p tl. m = p @ tl \<and> list_all2 atom_matches linkRegex_atoms p \<and> tl \<noteq> [] \<and>
        list_all alnum tl)"

text \<open>
  A string that matches the pattern occupies the position \<open>k\<close> of a text: it starts
  after the first \<open>k\<close> code units.
\<close>

definition link_at :: "js_string \<Rightarrow> nat \<Rightarrow> js_string \<Rightarrow> bool" where
  "link_at s k m \<longleftrightarrow> link_shaped m \<and> (\<exists>pre post. s = pre @ m @ post \<and> length pre = k)"

text \<open>
  What the page answers during \<open>clickShareLinkButton()\<close>. A \<open>waitForSelector\<close>
  rejects when its 5000 ms pass, and its type also allows \<open>null\<close>. \<open>share_close\<close>
  answers the \<open>_closeParticipantsPane\<close> of the \<open>try\<close> block, \<open>share_close_catch\<close>
  the one of the \<open>catch\<close> block.
\<close>

record share_env =
  share_open :: open_env
  invite_button :: "exn + handle option"
  invite_click :: "exn + unit"
  copy_button :: "exn + handle option"
  copy_click :: "exn + unit"
  dialog_button :: "exn + handle option"
  dialog_click :: "exn + unit"
  dialog_hidden :: "exn + unit"
  share_close :: close_env
  clipboard_text :: "exn + js_string"
  share_viewport :: "(nat \<times> nat) option"
  share_mouse_move :: "exn + unit"
  share_close_catch :: close_env

definition clickShareLinkButton_try ::
  "share_env \<Rightarrow> PuppeteerAgent \<Rightarrow> exn + js_string option" where
  "clickShareLinkButton_try e a =
     (if \<not> openParticipantsPane (share_open e) a then Inr None
      else
        await (invite_button e) (\<lambda>inviteBtn.
          case inviteBtn of
            None \<Rightarrow> (let u = closeParticipantsPane (share_close e) a in Inr None)
          | Some b1 \<Rightarrow>
        await (invite_click e) (\<lambda>u.
        await (copy_button e) (\<lambda>shareLinkBtn.
          case shareLinkBtn of
            None \<Rightarrow> (let u = closeParticipantsPane (share_close e) a in Inr None)
          | Some b2 \<Rightarrow>
        await (copy_click e) (\<lambda>u.
        await (dialog_button e) (\<lambda>closeBtn.
          case closeBtn of
            None \<Rightarrow> (let u = closeParticipantsPane (share_close e) a in Inr None)
          | Some b3 \<Rightarrow>
        await (dialog_click e) (\<lambda>u.
        await (dialog_hidden e) (\<lambda>u.
          let u = closeParticipantsPane (share_close e) a in
        await (clipboard_text e) (\<lambda>inviteLink.
        await (case share_viewport e of None \<Rightarrow> Inr () | Some v \<Rightarrow> share_mouse_move e) (\<lambda>u.
          Inr (regex_match inviteLink)))))))))))"

definition clickShareLinkButton :: "share_env \<Rightarrow> PuppeteerAgent \<Rightarrow> js_string option" where
  "clickShareLinkButton e a =
     (if page a = None then None
      else
        (case clickShareLinkButton_try e a of
           Inl err \<Rightarrow> (let u = closeParticipantsPane (share_close_catch e) a in None)
         | Inr r \<Rightarrow> r))"

text \<open>A control was found within its wait window.\<close>

definition found :: "exn + handle option \<Rightarrow> bool" where
  "found x = (case x of Inr (Some h) \<Rightarrow> True | _ \<Rightarrow> False)"

text \<open>
  Every step of \<open>clickShareLinkButton()\<close> around the clipboard read goes through:
  there is a page, the pane opens, the three controls are found and clicked, the dialog
  disappears, and the final mouse move (made when there is a viewport) succeeds.
\<close>

definition share_flow_completes :: "share_env \<Rightarrow> PuppeteerAgent \<Rightarrow> bool" where
  "share_flow_completes e a \<longleftrightarrow>
     page a \<noteq> None \<and> openParticipantsPane (share_open e) a \<and>
     found (invite_button e) \<and> invite_click e = Inr () \<and>
     found (copy_button e) \<and> copy_click e = Inr () \<and>
     found (dialog_button e) \<and> dialog_click e = Inr () \<and> dialog_hidden e = Inr () \<and>
     (share_viewport e = None \<or> share_mouse_move e = Inr ())"

section \<open>getScreenshot()\<close>

text \<open>
  A call of an asynchronous library method that is not awaited on the spot: it can throw
  at once, or hand back a promise that later rejects or resolves.
\<close>

datatype 'a call = Throws exn | Rejects exn | Resolves 'a

text \<open>
  What \<open>getScreenshot()\<close> resolves to: the image, \<open>null\<close> (the \<open>catch\<close> block), or
  \<open>undefined\<close> (the end of the function body, reached when there is no page).
\<close>

datatype screenshot = Image "8 word list" | Null | Undefined

text \<open>
  \<open>return this.page.screenshot()\<close> is inside the \<open>try\<close> block but is not awaited
  there: the promise is handed to the caller as it is, so the \<open>catch\<close> block sees only
  a synchronous throw of the call, and a later rejection is the rejection of
  \<open>getScreenshot()\<close> itself.
\<close>

definition getScreenshot :: "8 word list call \<Rightarrow> PuppeteerAgent \<Rightarrow> exn + screenshot" where
  "getScreenshot shot a =
     (case page a of
        Some p \<Rightarrow>
          (case shot of
             Throws err \<Rightarrow> Inr Null
           | Rejects err \<Rightarrow> Inl err
           | Resolves bytes \<Rightarrow> Inr (Image bytes))
      | None \<Rightarrow> Inr Undefined)"

section \<open>coldStart()\<close>

text \<open>
  What the throwaway browser answers. \<open>cold_titles\<close> are the values of
  \<open>document.title\<close> that \<open>waitForFunction\<close> sees while it polls during its 10000 ms.
\<close>

record cold_env =
  cold_chrome_installed :: bool
  cold_launch_installed :: "exn + handle"
  cold_launch_bundled :: "exn + handle"
  cold_newPage :: "exn + handle"
  cold_goto :: "exn + unit"
  cold_titles :: "exn + string list"
  cold_close :: "exn + unit"

definition expectedTitle :: string where
  "expectedTitle = ''Example Domain''"

text \<open>
  \<open>waitForFunction((title) => document.title === title, {timeout: 10000}, expectedTitle)\<close>:
  resolves when a polled title equals the argument, rejects with a timeout otherwise.
\<close>

definition waitForFunction_title :: "exn + string list \<Rightarrow> string \<Rightarrow> exn + unit" where
  "waitForFunction_title polls title =
     await polls (\<lambda>ts. if title \<in> set ts then Inr () else Inl TimeoutError)"

definition coldStart_try :: "cold_env \<Rightarrow> exn + bool" where
  "coldStart_try e =
     await (if cold_chrome_installed e then cold_launch_installed e else cold_launch_bundled e)
       (\<lambda>tempBrowser.
     await (cold_newPage e) (\<lambda>tempPage.
     await (cold_goto e) (\<lambda>u.
     await (waitForFunction_title (cold_titles e) expectedTitle) (\<lambda>u.
     await (cold_close e) (\<lambda>u. Inr True)))))"

text \<open>The \<open>catch\<close> block logs and returns false. No field of the agent is read or set.\<close>

definition coldStart :: "cold_env \<Rightarrow> PuppeteerAgent \<Rightarrow> exn + bool" where
  "coldStart e a = (case coldStart_try e of Inl err \<Rightarrow> Inr False | Inr r \<Rightarrow> Inr r)"

section \<open>Objects used as dictionaries\<close>

text \<open>
  The registry and the snapshot are plain objects; a map gives their own properties.
  Reading \<open>obj[key]\<close> finds an own property, or else a property of
  \<open>Object.prototype\<close>: under each of the names below there is a value that is truthy
  and is not an agent.
\<close>

definition prototype_keys :: "string list" where
  "prototype_keys =
     [''constructor'', ''__proto__'', ''hasOwnProperty'', ''isPrototypeOf'',
      ''propertyIsEnumerable'', ''toLocaleString'', ''toString'', ''valueOf'',
      ''__defineGetter__'', ''__defineSetter__'', ''__lookupGetter__'', ''__lookupSetter__'']"

datatype 'a property = Own 'a | Inherited | Absent

definition get_property :: "(string \<rightharpoonup> 'a) \<Rightarrow> string \<Rightarrow> 'a property" where
  "get_property obj key =
     (case obj key of
        Some v \<Rightarrow> Own v
      | None \<Rightarrow> if key \<in> set prototype_keys then Inherited else Absent)"

text \<open>
  The object built by \<open>for (const id in m) obj[id] = f(m[id])\<close> from an empty object.
  The assignment \<open>obj[id] = v\<close> makes an own property, except for the key
  \<open>__proto__\<close>, where it sets the prototype of \<open>obj\<close> and makes no own property.
\<close>

definition assign_each :: "('a \<Rightarrow> 'b) \<Rightarrow> (string \<rightharpoonup> 'a) \<Rightarrow> (string \<rightharpoonup> 'b)" where
  "assign_each f m = (\<lambda>i. if i = ''__proto__'' then None else map_option f (m i))"

section \<open>The snapshot file (src/utils.ts)\<close>

text \<open>
  The content of \<open>./agents-data.json\<close>, by what \<open>loadAgentsFromFile\<close> makes of it:
  text that is empty after \<open>trim()\<close>, text on which \<open>JSON.parse\<close> throws, or the
  JSON text of an object from identifiers to configurations. \<open>JSON.stringify\<close> followed
  by \<open>JSON.parse\<close> gives back such an object as it was (its values are records of
  strings and booleans, and an absent \<open>id\<close> stays absent), so the text of a document
  is identified with the object it denotes. A missing file is \<open>None\<close>.
\<close>

datatype file_content = Blank | Malformed | Document "string \<rightharpoonup> AgentConfig"

type_synonym disk = "file_content option"

text \<open>
  \<open>saveAgentsToFile\<close>: the configuration of every agent of the map is assigned to
  a fresh object, whose own properties \<open>JSON.stringify\<close> writes over the file; a
  failed write is logged and the file is taken to stay as it was.
\<close>

definition saveAgentsToFile ::
  "exn + unit \<Rightarrow> (string \<rightharpoonup> PuppeteerAgent) \<Rightarrow> disk \<Rightarrow> disk" where
  "saveAgentsToFile write agents d =
     (let agentsToSave = assign_each getConfig agents in
      case write of
        Inr u \<Rightarrow> Some (Document agentsToSave)
      | Inl err \<Rightarrow> d)"

text \<open>Whether \<open>exists()\<close> and \<open>text()\<close> answer (from the disk) or reject.\<close>

record load_env =
  exists_call :: "exn + unit"
  text_call :: "exn + unit"

definition loadAgentsFromFile_try ::
  "load_env \<Rightarrow> disk \<Rightarrow> exn + (string \<rightharpoonup> PuppeteerAgent)" where
  "loadAgentsFromFile_try e d =
     await (exists_call e) (\<lambda>u.
       case d of
         None \<Rightarrow> Inr Map.empty
       | Some fileContent \<Rightarrow>
           await (text_call e) (\<lambda>u.
             case fileContent of
               Blank \<Rightarrow> Inr Map.empty
             | Malformed \<Rightarrow> Inl (Failure ''SyntaxError'')
             | Document agentConfigs \<Rightarrow>
                 Inr (assign_each new_PuppeteerAgent agentConfigs)))"

text \<open>
  The \<open>catch\<close> block logs; the agents loaded so far are returned, and none is loaded
  before the loop, in which nothing throws.
\<close>

definition loadAgentsFromFile :: "load_env \<Rightarrow> disk \<Rightarrow> (string \<rightharpoonup> PuppeteerAgent)" where
  "loadAgentsFromFile e d =
     (case loadAgentsFromFile_try e d of Inl err \<Rightarrow> Map.empty | Inr loadedAgents \<Rightarrow> loadedAgents)"

section \<open>Observable states of an agent\<close>

text \<open>
  The control surface calls the operations of one agent one after the other. An agent is
  \<open>quiescent\<close> between two calls: freshly constructed, or left by a finished
  \<open>start()\<close> or \<open>stop()\<close> (the other operations assign no field). It is
  \<open>observable\<close> when quiescent and at every suspension point inside a call.
\<close>

inductive quiescent :: "PuppeteerAgent \<Rightarrow> bool" where
  created: "quiescent (new_PuppeteerAgent c)"
| started: "quiescent a \<Longrightarrow> quiescent (agent_after (start e a))"
| stopped: "quiescent a \<Longrightarrow> quiescent (agent_after (stop e' a))"

inductive observable :: "PuppeteerAgent \<Rightarrow> bool" where
  at_rest: "quiescent a \<Longrightarrow> observable a"
| in_start: "quiescent a \<Longrightarrow> s \<in> set (fst (start e a)) \<Longrightarrow> observable s"
| in_stop: "quiescent a \<Longrightarrow> s \<in> set (fst (stop e' a)) \<Longrightarrow> observable s"

text \<open>
  The relation between status and session handle that the code keeps: a running agent has
  a browser session, and an agent with a browser session is starting, running or in
  error.
\<close>

definition session_inv :: "PuppeteerAgent \<Rightarrow> bool" where
  "session_inv a \<longleftrightarrow>
     (status a = Running \<longrightarrow> browser a \<noteq> None) \<and>
     (browser a \<noteq> None \<longrightarrow> status a = Starting \<or> status a = Running \<or> status a = Error)"

definition live_when_running :: "PuppeteerAgent \<Rightarrow> bool" where
  "live_when_running a \<longleftrightarrow>
     (status a = Running \<longrightarrow> browser a \<noteq> None \<and> page a \<noteq> None)"

section \<open>The registry and its HTTP handlers (src/api.ts)\<close>

text \<open>
  \<open>agents\<close> of api.ts: an object used as a dictionary from identifier to agent. The
  agents are mutable objects: a handler that calls an operation of \<open>agents[id]\<close>
  leaves the changed agent under the same key. The handlers test \<open>!agents[id]\<close>,
  which an inherited property passes; a method call on such a value then throws a
  \<open>TypeError\<close> inside the \<open>try\<close> block. New entries are stored under a value of
  \<open>crypto.randomUUID()\<close>.
\<close>

type_synonym registry = "string \<rightharpoonup> PuppeteerAgent"

text \<open>
  \<open>POST /agent/:id/start\<close>, one constructor per \<open>return\<close> of the handler: agent
  not found, \<open>start()\<close> returned a falsy value, agent started, \<open>start()\<close> threw.
\<close>

datatype start_reply =
  Start_404_not_found | Start_500_falsy_result | Start_200_started | Start_500_caught exn

definition start_handler :: "start_env \<Rightarrow> registry \<Rightarrow> string \<Rightarrow> registry \<times> start_reply" where
  "start_handler e agents i =
     (case get_property agents i of
        Absent \<Rightarrow> (agents, Start_404_not_found)
      | Inherited \<Rightarrow> (agents, Start_500_caught TypeError)
      | Own a \<Rightarrow>
         (case start e a of
            (t, Inr res, a') \<Rightarrow>
              if \<not> res then (agents(i \<mapsto> a'), Start_500_falsy_result)
              else (agents(i \<mapsto> a'), Start_200_started)
          | (t, Inl err, a') \<Rightarrow> (agents(i \<mapsto> a'), Start_500_caught err)))"

text \<open>
  \<open>POST /agent/create\<close>: \<open>uuid\<close> is the value of \<open>crypto.randomUUID()\<close>. Nothing in
  the \<open>try\<close> block throws (\<open>saveAgentsToFile\<close> catches its own errors).
\<close>

datatype create_reply = Create_201 string | Create_500

definition create_handler ::
  "string \<Rightarrow> exn + unit \<Rightarrow> AgentConfig \<Rightarrow> registry \<Rightarrow> disk \<Rightarrow> registry \<times> disk \<times> create_reply" where
  "create_handler uuid write body agents d =
     (let agents' = agents(uuid \<mapsto> new_PuppeteerAgent body) in
      (agents', saveAgentsToFile write agents' d, Create_201 uuid))"

text \<open>\<open>DELETE /agent/:id\<close>: a \<open>stop()\<close> that throws leaves the agent in the map.\<close>

datatype delete_reply = Delete_404_not_found | Delete_200_deleted | Delete_500_caught exn

definition delete_handler ::
  "stop_env \<Rightarrow> exn + unit \<Rightarrow> registry \<Rightarrow> disk \<Rightarrow> string \<Rightarrow> registry \<times> disk \<times> delete_reply" where
  "delete_handler e write agents d i =
     (case get_property agents i of
        Absent \<Rightarrow> (agents, d, Delete_404_not_found)
      | Inherited \<Rightarrow> (agents, d, Delete_500_caught TypeError)
      | Own a \<Rightarrow>
         (case stop e a of
            (t, Inl err, a') \<Rightarrow> (agents(i \<mapsto> a'), d, Delete_500_caught err)
          | (t, Inr u, a') \<Rightarrow>
              (let agents' = agents(i := None) in
               (agents', saveAgentsToFile write agents' d, Delete_200_deleted))))"

text \<open>
  \<open>POST /agent/:id/exec\<close>. The body of a 200 answer is
  \<open>{status, result: {success, data}}\<close>; \<open>exec_uuid\<close> is the value of
  \<open>crypto.randomUUID()\<close> in the \<open>cold_start\<close> case.
\<close>

datatype exec_data =
  Data_link "js_string option" | Data_participants "participant list option"
  | Data_flag "bool option"

datatype exec_reply =
  Exec_404_not_found | Exec_200 bool exec_data | Exec_400_unknown_code | Exec_500_caught exn

record exec_env =
  exec_share :: share_env
  exec_list :: list_env
  exec_cold :: cold_env
  exec_uuid :: string

definition cold_start_config :: AgentConfig where
  "cold_start_config =
     \<lparr>startUrl = ''https://example.com'', headless = False, scrapeData = False,
      muteAudio = True, cfg_id = None\<rparr>"

definition exec_handler ::
  "exec_env \<Rightarrow> registry \<Rightarrow> string \<Rightarrow> string \<Rightarrow> registry \<times> exec_reply" where
  "exec_handler e agents i code =
     (case get_property agents i of
        Absent \<Rightarrow> (agents, Exec_404_not_found)
      | target \<Rightarrow>
          if code = ''share_link'' then
            (case target of
               Own a \<Rightarrow>
                 (let result = clickShareLinkButton (exec_share e) a in
                  (agents, Exec_200 (result \<noteq> None) (Data_link result)))
             | _ \<Rightarrow> (agents, Exec_500_caught TypeError))
          else if code = ''list_participants'' then
            (case target of
               Own a \<Rightarrow>
                 (let res1 = listParticipants (exec_list e) a in
                  (agents, Exec_200 (res1 \<noteq> None) (Data_participants res1)))
             | _ \<Rightarrow> (agents, Exec_500_caught TypeError))
          else if code = ''cold_start'' then
            (let agentId = exec_uuid e;
                 temp = new_PuppeteerAgent cold_start_config;
                 agents' = agents(agentId \<mapsto> temp)
             in case coldStart (exec_cold e) temp of
                  Inl err \<Rightarrow> (agents', Exec_500_caught err)
                | Inr res \<Rightarrow>
                    if res then (agents', Exec_200 res (Data_flag (Some res)))
                    else (agents', Exec_200 False (Data_flag None)))
          else (agents, Exec_400_unknown_code))"

section \<open>Concrete inputs\<close>

definition example_config :: AgentConfig where
  "example_config =
     \<lparr>startUrl = ''https://jitsi.3git.eu/Room42'', headless = True, scrapeData = False,
      muteAudio = True, cfg_id = None\<rparr>"

definition running_agent :: PuppeteerAgent where
  "running_agent = \<lparr>browser = Some 1, page = Some 2, config = example_config, status = Running\<rparr>"

definition closes_all :: stop_env where
  "closes_all = \<lparr>page_close = Inr (), browser_close = Inr ()\<rparr>"

definition page_close_fails :: stop_env where
  "page_close_fails = \<lparr>page_close = Inl (Failure ''Target closed''), browser_close = Inr ()\<rparr>"

definition browser_close_fails :: stop_env where
  "browser_close_fails =
     \<lparr>page_close = Inr (), browser_close = Inl (Failure ''Connection closed'')\<rparr>"

text \<open>A start whose navigation fails, with a teardown that works.\<close>

definition unreachable_env :: start_env where
  "unreachable_env =
     \<lparr>chrome_installed = False, launch_installed = Inl (Failure ''no local Chrome''),
      launch_bundled = Inr 1, overridePermissions = Inr (), newPage = Inr 2,
      goto = Inl (Failure ''net::ERR_NAME_NOT_RESOLVED''), evaluate_title = Inr ''Room'',
      cleanup_navigation = closes_all, cleanup_outer = closes_all\<rparr>"

text \<open>The same, with a page that refuses to close.\<close>

definition unreachable_stuck_page_env :: start_env where
  "unreachable_stuck_page_env =
     unreachable_env\<lparr>cleanup_navigation := page_close_fails, cleanup_outer := page_close_fails\<rparr>"

text \<open>A start on which every call succeeds.\<close>

definition reachable_env :: start_env where
  "reachable_env = unreachable_env\<lparr>goto := Inr ()\<rparr>"

text \<open>A fresh agent as it is while \<open>start()\<close> awaits the launch of the browser.\<close>

definition launching_agent :: PuppeteerAgent where
  "launching_agent = (new_PuppeteerAgent example_config)\<lparr>status := Starting\<rparr>"

text \<open>A fresh agent after a successful \<open>start()\<close>.\<close>

definition started_agent :: PuppeteerAgent where
  "started_agent = agent_after (start reachable_env (new_PuppeteerAgent example_config))"

text \<open>A page on which the pane opens and closes at the key press.\<close>

definition pane_opens :: open_env where
  "pane_opens = \<lparr>open_press = Inr (), open_wait = Inr (), open_pane = Inr (Some 10),
     open_content = Inr (Some 11)\<rparr>"

definition pane_closes :: close_env where
  "pane_closes = \<lparr>close_press = Inr (), close_still_open = Inr None, close_button = Inr None,
     close_click = Inr (), close_wait_hidden = Inr (), close_viewport = Some (800, 600),
     close_mouse_move = Inr ()\<rparr>"

text \<open>Two participants: one with the camera off, one without a name element.\<close>

definition two_rows :: "row_env list" where
  "two_rows =
     [\<lparr>name_query = Inr (Some 20), name_text = Inr (Some ''Ada''), video_query = Inr (Some 21),
       audio_query = Inr None\<rparr>,
      \<lparr>name_query = Inr None, name_text = Inr None, video_query = Inr None,
       audio_query = Inr (Some 22)\<rparr>]"

definition two_rows_env :: list_env where
  "two_rows_env = \<lparr>list_open = pane_opens, list_rows = Inr two_rows, list_close = pane_closes\<rparr>"

text \<open>
  A share flow on which every control is found and clicked and the clipboard holds a
  sentence with the link in it.
\<close>

definition share_ok_env :: share_env where
  "share_ok_env =
     \<lparr>share_open = pane_opens, invite_button = Inr (Some 30), invite_click = Inr (),
      copy_button = Inr (Some 31), copy_click = Inr (), dialog_button = Inr (Some 32),
      dialog_click = Inr (), dialog_hidden = Inr (), share_close = pane_closes,
      clipboard_text = Inr (lit ''Join: https://jitsi.3git.eu/Room42 now''),
      share_viewport = Some (800, 600), share_mouse_move = Inr (),
      share_close_catch = pane_closes\<rparr>"

text \<open>The same flow, with two links in the clipboard.\<close>

definition share_two_links_env :: share_env where
  "share_two_links_env =
     share_ok_env\<lparr>clipboard_text :=
       Inr (lit ''https://jitsi.3git.eu/RoomA https://jitsi.3git.eu/RoomB'')\<rparr>"

text \<open>The same flow, with a confirmation dialog that does not go away in 5000 ms.\<close>

definition share_dialog_stays_env :: share_env where
  "share_dialog_stays_env = share_ok_env\<lparr>dialog_hidden := Inl TimeoutError\<rparr>"

text \<open>Cold starts: one on which every step works, one on which the title never matches.\<close>

definition cold_ok_env :: cold_env where
  "cold_ok_env =
     \<lparr>cold_chrome_installed = False, cold_launch_installed = Inl (Failure ''no local Chrome''),
      cold_launch_bundled = Inr 40, cold_newPage = Inr 41, cold_goto = Inr (),
      cold_titles = Inr ['''', ''Example Domain''], cold_close = Inr ()\<rparr>"

definition cold_wrong_title_env :: cold_env where
  "cold_wrong_title_env = cold_ok_env\<lparr>cold_titles := Inr ['''', ''Example Domains'']\<rparr>"

text \<open>A page on which the pane does not show up in 5000 ms.\<close>

definition pane_stuck :: open_env where
  "pane_stuck = pane_opens\<lparr>open_wait := Inl TimeoutError\<rparr>"

text \<open>A registry with one running agent, and an exec request that finds it.\<close>

definition one_agent :: registry where
  "one_agent = [''a1'' \<mapsto> running_agent]"

definition exec_example_env :: exec_env where
  "exec_example_env =
     \<lparr>exec_share = share_ok_env, exec_list = two_rows_env, exec_cold = cold_ok_env,
      exec_uuid = ''u2''\<rparr>"

text \<open>A registry with a running agent and a fresh one, and file calls that answer.\<close>

definition other_config :: AgentConfig where
  "other_config =
     \<lparr>startUrl = ''https://jitsi.3git.eu/Standup'', headless = False, scrapeData = True,
      muteAudio = False, cfg_id = Some ''standup''\<rparr>"

definition two_agents :: registry where
  "two_agents = [''a1'' \<mapsto> running_agent, ''a2'' \<mapsto> new_PuppeteerAgent other_config]"

definition file_answers :: load_env where
  "file_answers = \<lparr>exists_call = Inr (), text_call = Inr ()\<rparr>"

text \<open>The equations that evaluate a call on a concrete input.\<close>

lemmas lifecycle_defs =
  stop_def start_def start_navigate_def start_catch_def result_of_def agent_after_def
  observed_def new_PuppeteerAgent_def Let_def

lemmas pane_defs =
  await_def openParticipantsPane_def closeParticipantsPane_def Let_def

lemmas cold_defs =
  await_def coldStart_def coldStart_try_def waitForFunction_title_def expectedTitle_def

section \<open>Awaited calls\<close>

lemma await_Inr_iff: "await x f = Inr r \<longleftrightarrow> (\<exists>v. x = Inr v \<and> f v = Inr r)"
  by (cases x) (simp_all add: await_def)


section \<open>Properties of stop() and start()\<close>

lemma stop_result_cases:
  "result_of (stop e a) = Inr () \<or> (\<exists>b err. browser a = Some b \<and> browser_close e = Inl err
      \<and> result_of (stop e a) = Inl err)"
  by (auto simp: stop_def result_of_def Let_def split: option.splits sum.splits)

lemma stop_ok:
  assumes "browser a = None \<or> browser_close e = Inr ()"
  shows "result_of (stop e a) = Inr ()"
    and "status (agent_after (stop e a)) = Stopped"
    and "browser (agent_after (stop e a)) = None"
  using assms
  by (auto simp: stop_def result_of_def agent_after_def Let_def split: option.splits sum.splits)

lemma stop_session_inv:
  "session_inv a \<Longrightarrow> s \<in> set (observed (stop e a)) \<Longrightarrow> session_inv s"
  by (auto simp: stop_def observed_def session_inv_def Let_def split: option.splits sum.splits)

lemma stop_not_running:
  "status a \<noteq> Running \<Longrightarrow> s \<in> set (observed (stop e a)) \<Longrightarrow> status s \<noteq> Running"
  by (auto simp: stop_def observed_def Let_def split: option.splits sum.splits)

lemma observed_start_catch:
  "set (observed (start_catch e err t a)) = set t \<union> set (observed (stop (cleanup_outer e) (a\<lparr>status := Error\<rparr>)))"
  by (auto simp: start_catch_def observed_def split: prod.splits sum.splits)

lemma start_catch_session_inv:
  "(\<forall>s\<in>set t. session_inv s) \<Longrightarrow> s \<in> set (observed (start_catch e err t a)) \<Longrightarrow> session_inv s"
  unfolding observed_start_catch
  by (auto dest!: stop_session_inv[rotated] simp: session_inv_def)

lemma start_catch_live:
  "(\<forall>s\<in>set t. live_when_running s) \<Longrightarrow> s \<in> set (observed (start_catch e err t a)) \<Longrightarrow> live_when_running s"
  unfolding observed_start_catch
  by (auto dest!: stop_not_running[rotated] simp: live_when_running_def)


lemma observed_start_navigate_fail:
  "goto e = Inl err \<Longrightarrow> \<exists>err'. set (observed (start_navigate e t a)) =
     set t \<union> {a} \<union> set (fst (stop (cleanup_navigation e) (a\<lparr>status := Error\<rparr>)))
       \<union> set (observed (start_catch e err' [] (agent_after (stop (cleanup_navigation e) (a\<lparr>status := Error\<rparr>)))))"
  by (auto simp: start_navigate_def observed_start_catch agent_after_def split: prod.splits sum.splits)

lemma start_navigate_session_inv:
  assumes "\<forall>s\<in>set t. session_inv s" and "session_inv a" and "browser a \<noteq> None"
    and "s \<in> set (observed (start_navigate e t a))"
  shows "session_inv s"
proof (cases "goto e")
  case (Inl err)
  have E: "session_inv (a\<lparr>status := Error\<rparr>)"
    by (simp add: session_inv_def)
  from observed_start_navigate_fail [OF Inl, of t a] assms(4)
  consider "s \<in> set t" | "s = a"
    | "s \<in> set (observed (stop (cleanup_navigation e) (a\<lparr>status := Error\<rparr>)))"
    | err' where "s \<in> set (observed (start_catch e err' []
         (agent_after (stop (cleanup_navigation e) (a\<lparr>status := Error\<rparr>)))))"
    by (auto simp: observed_def)
  then show ?thesis
  proof cases
    case 1 with assms(1) show ?thesis by blast
  next
    case 2 with assms(2) show ?thesis by simp
  next
    case 3 with E show ?thesis by (rule stop_session_inv)
  next
    case 4 then show ?thesis by (rule start_catch_session_inv[rotated]) simp
  qed
next
  case (Inr u)
  have R: "session_inv (a\<lparr>status := Running\<rparr>)"
    using assms(3) by (simp add: session_inv_def)
  show ?thesis
  proof (cases "scrapeData (config a)")
    case False
    with Inr assms R show ?thesis
      by (auto simp: start_navigate_def observed_def Let_def)
  next
    case True
    show ?thesis
    proof (cases "evaluate_title e")
      case (Inr d)
      with \<open>goto e = Inr u\<close> True assms R show ?thesis
        by (auto simp: start_navigate_def observed_def Let_def)
    next
      case (Inl err)
      with \<open>goto e = Inr u\<close> True assms(4)
      have "s \<in> set (observed (start_catch e err (t @ [a, a\<lparr>status := Running\<rparr>]) (a\<lparr>status := Running\<rparr>)))"
        by (simp add: start_navigate_def Let_def)
      then show ?thesis
        by (rule start_catch_session_inv[rotated]) (use assms R in auto)
    qed
  qed
qed


lemma stop_trace_not_running:
  "status a \<noteq> Running \<Longrightarrow> s \<in> set (fst (stop e a)) \<Longrightarrow> status s \<noteq> Running"
  by (auto simp: stop_def Let_def split: option.splits sum.splits)

lemma start_navigate_live:
  assumes "\<forall>s\<in>set t. live_when_running s" and "status a \<noteq> Running"
    and "browser a \<noteq> None" and "page a \<noteq> None"
    and "s \<in> set (observed (start_navigate e t a))"
  shows "live_when_running s"
proof (cases "goto e")
  case (Inl err)
  from observed_start_navigate_fail [OF Inl, of t a] assms(5)
  consider "s \<in> set t" | "s = a"
    | "s \<in> set (fst (stop (cleanup_navigation e) (a\<lparr>status := Error\<rparr>)))"
    | err' where "s \<in> set (observed (start_catch e err' []
         (agent_after (stop (cleanup_navigation e) (a\<lparr>status := Error\<rparr>)))))"
    by auto
  then show ?thesis
  proof cases
    case 1 with assms(1) show ?thesis by blast
  next
    case 2 with assms(2) show ?thesis by (simp add: live_when_running_def)
  next
    case 3
    then have "status s \<noteq> Running"
      by (rule stop_trace_not_running[rotated]) simp
    then show ?thesis by (simp add: live_when_running_def)
  next
    case 4 then show ?thesis by (rule start_catch_live[rotated]) simp
  qed
next
  case (Inr u)
  have R: "live_when_running (a\<lparr>status := Running\<rparr>)" and S: "live_when_running a"
    using assms(2,3,4) by (simp_all add: live_when_running_def)
  show ?thesis
  proof (cases "scrapeData (config a)")
    case False
    with Inr assms R S show ?thesis
      by (auto simp: start_navigate_def observed_def Let_def)
  next
    case True
    show ?thesis
    proof (cases "evaluate_title e")
      case (Inr d)
      with \<open>goto e = Inr u\<close> True assms R S show ?thesis
        by (auto simp: start_navigate_def observed_def Let_def)
    next
      case (Inl err)
      with \<open>goto e = Inr u\<close> True assms(5)
      have "s \<in> set (observed (start_catch e err (t @ [a, a\<lparr>status := Running\<rparr>]) (a\<lparr>status := Running\<rparr>)))"
        by (simp add: start_navigate_def Let_def)
      then show ?thesis
        by (rule start_catch_live[rotated]) (use assms R S in auto)
    qed
  qed
qed

lemma start_session_inv:
  assumes "s \<in> set (observed (start e a))"
  shows "session_inv s"
proof -
  let ?a1 = "a\<lparr>status := Starting\<rparr>"
  have I1: "session_inv ?a1" by (simp add: session_inv_def)
  show ?thesis
  proof (cases "if chrome_installed e then launch_installed e else launch_bundled e")
    case (Inl err)
    with assms have "s \<in> set (observed (start_catch e err [?a1] ?a1))"
      by (simp add: start_def Let_def)
    then show ?thesis by (rule start_catch_session_inv[rotated]) (use I1 in simp)
  next
    case (Inr b)
    let ?a2 = "?a1\<lparr>browser := Some b\<rparr>"
    have I2: "session_inv ?a2" by (simp add: session_inv_def)
    show ?thesis
    proof (cases "overridePermissions e")
      case (Inl err)
      with Inr assms have "s \<in> set (observed (start_catch e err [?a1, ?a2] ?a2))"
        by (simp add: start_def Let_def)
      then show ?thesis by (rule start_catch_session_inv[rotated]) (use I1 I2 in simp)
    next
      case Perm: (Inr u)
      show ?thesis
      proof (cases "newPage e")
        case (Inl err)
        with Inr Perm assms have "s \<in> set (observed (start_catch e err [?a1, ?a2, ?a2] ?a2))"
          by (simp add: start_def Let_def)
        then show ?thesis by (rule start_catch_session_inv[rotated]) (use I1 I2 in simp)
      next
        case Pg: (Inr p)
        with Inr Perm assms
        have "s \<in> set (observed (start_navigate e [?a1, ?a2, ?a2] (?a2\<lparr>page := Some p\<rparr>)))"
          by (simp add: start_def Let_def)
        then show ?thesis
          by (rule start_navigate_session_inv[rotated 3]) (use I1 I2 in \<open>simp_all add: session_inv_def\<close>)
      qed
    qed
  qed
qed

lemma start_live:
  assumes "s \<in> set (observed (start e a))"
  shows "live_when_running s"
proof -
  let ?a1 = "a\<lparr>status := Starting\<rparr>"
  have I1: "live_when_running ?a1" by (simp add: live_when_running_def)
  show ?thesis
  proof (cases "if chrome_installed e then launch_installed e else launch_bundled e")
    case (Inl err)
    with assms have "s \<in> set (observed (start_catch e err [?a1] ?a1))"
      by (simp add: start_def Let_def)
    then show ?thesis by (rule start_catch_live[rotated]) (use I1 in simp)
  next
    case (Inr b)
    let ?a2 = "?a1\<lparr>browser := Some b\<rparr>"
    have I2: "live_when_running ?a2" by (simp add: live_when_running_def)
    show ?thesis
    proof (cases "overridePermissions e")
      case (Inl err)
      with Inr assms have "s \<in> set (observed (start_catch e err [?a1, ?a2] ?a2))"
        by (simp add: start_def Let_def)
      then show ?thesis by (rule start_catch_live[rotated]) (use I1 I2 in simp)
    next
      case Perm: (Inr u)
      show ?thesis
      proof (cases "newPage e")
        case (Inl err)
        with Inr Perm assms have "s \<in> set (observed (start_catch e err [?a1, ?a2, ?a2] ?a2))"
          by (simp add: start_def Let_def)
        then show ?thesis by (rule start_catch_live[rotated]) (use I1 I2 in simp)
      next
        case Pg: (Inr p)
        with Inr Perm assms
        have "s \<in> set (observed (start_navigate e [?a1, ?a2, ?a2] (?a2\<lparr>page := Some p\<rparr>)))"
          by (simp add: start_def Let_def)
        then show ?thesis
          by (rule start_navigate_live[rotated 4]) (use I1 I2 in simp_all)
      qed
    qed
  qed
qed

lemma quiescent_session_inv: "quiescent a \<Longrightarrow> session_inv a"
proof (induction rule: quiescent.induct)
  case (created c)
  show ?case by (simp add: session_inv_def new_PuppeteerAgent_def)
next
  case (started a e)
  show ?case by (rule start_session_inv [of _ e a]) (simp add: observed_def agent_after_def)
next
  case (stopped a e')
  from stopped.IH show ?case
    by (rule stop_session_inv [of a _ e']) (simp add: observed_def agent_after_def)
qed

lemma observable_session_inv: "observable s \<Longrightarrow> session_inv s"
proof (induction rule: observable.induct)
  case (at_rest a)
  then show ?case by (rule quiescent_session_inv)
next
  case (in_start a s e)
  show ?case by (rule start_session_inv [of _ e a]) (use in_start in \<open>simp add: observed_def\<close>)
next
  case (in_stop a s e')
  from in_stop(1) have "session_inv a" by (rule quiescent_session_inv)
  then show ?case by (rule stop_session_inv [of a _ e']) (use in_stop in \<open>simp add: observed_def\<close>)
qed

subsection \<open>Claims about stop() and start()\<close>

lemma stop_after_stop:
  assumes "browser a = None"
  shows "result_of (stop e a) = Inr () \<and> status (agent_after (stop e a)) = Stopped"
  using assms stop_ok [of a e] by simp

text \<open>
  What \<open>stop()\<close> does when the agent has no browser session or closing the session
  succeeds: it returns, the status is \<open>stopped\<close>, and a second \<open>stop()\<close> returns
  as well, whatever the browser answers. An error of the page close is logged only.
\<close>

lemma stop_twice_stopped:
  assumes "browser a = None \<or> browser_close e1 = Inr ()"
  shows "result_of (stop e1 a) = Inr () \<and>
         status (agent_after (stop e1 a)) = Stopped \<and>
         result_of (stop e2 (agent_after (stop e1 a))) = Inr () \<and>
         status (agent_after (stop e2 (agent_after (stop e1 a)))) = Stopped"
proof -
  from assms have first: "result_of (stop e1 a) = Inr ()"
    "status (agent_after (stop e1 a)) = Stopped"
    "browser (agent_after (stop e1 a)) = None"
    by (rule stop_ok)+
  from first(3) have "result_of (stop e2 (agent_after (stop e1 a))) = Inr () \<and>
      status (agent_after (stop e2 (agent_after (stop e1 a)))) = Stopped"
    by (rule stop_after_stop)
  with first show ?thesis by simp
qed

text \<open>
  C3 fails on the code. On a running agent whose \<open>browser.close()\<close> rejects, the first
  \<open>stop()\<close> rejects with that error, the status is still \<open>running\<close> and the session
  handle is still set: \<open>browser.close()\<close> is awaited in the \<open>finally\<close> block with
  no \<open>catch\<close> around it, before the status is assigned, while the error of
  \<open>page.close()\<close> next to it is caught and logged. A second \<open>stop()\<close> whose
  \<open>browser.close()\<close> rejects again throws again.
\<close>

theorem stop_rejects_when_close_fails:
  "result_of (stop browser_close_fails running_agent) = Inl (Failure ''Connection closed'') \<and>
   status (agent_after (stop browser_close_fails running_agent)) = Running \<and>
   browser (agent_after (stop browser_close_fails running_agent)) = Some 1 \<and>
   result_of (stop browser_close_fails (agent_after (stop browser_close_fails running_agent)))
     = Inl (Failure ''Connection closed'') \<and>
   status (agent_after (stop browser_close_fails
     (agent_after (stop browser_close_fails running_agent)))) = Running"
  by (simp add: lifecycle_defs browser_close_fails_def running_agent_def)

lemma start_catch_result: "\<exists>err'. result_of (start_catch e err t a) = Inl err'"
  by (auto simp: start_catch_def result_of_def split: prod.splits sum.splits)

lemma start_navigate_result:
  "result_of (start_navigate e t a) = Inr True \<or> (\<exists>err. result_of (start_navigate e t a) = Inl err)"
proof (cases "goto e")
  case (Inl err)
  then show ?thesis
    using start_catch_result
    by (auto simp: start_navigate_def split: prod.splits sum.splits)
next
  case (Inr u)
  then show ?thesis
    using start_catch_result [of e _ _ "a\<lparr>status := Running\<rparr>"]
    by (auto simp: start_navigate_def Let_def result_of_def split: sum.splits)
qed

lemma start_result: "result_of (start e a) = Inr True \<or> (\<exists>err. result_of (start e a) = Inl err)"
  unfolding start_def Let_def
  using start_catch_result start_navigate_result
  by (auto split: sum.splits)

lemma start_catch_not_Inr: "result_of (start_catch e err t a) \<noteq> Inr b"
  using start_catch_result [of e err t a] by auto

lemma start_navigate_steps:
  assumes "result_of (start_navigate e t a) = Inr b"
  shows "(\<exists>u. goto e = Inr u) \<and> (scrapeData (config a) \<longrightarrow> (\<exists>d. evaluate_title e = Inr d))"
proof (cases "goto e")
  case (Inl err)
  with assms start_catch_not_Inr show ?thesis
    by (auto simp: start_navigate_def split: prod.splits sum.splits)
next
  case (Inr u)
  show ?thesis
  proof (cases "scrapeData (config a) \<and> (\<exists>err. evaluate_title e = Inl err)")
    case True
    with Inr assms start_catch_not_Inr show ?thesis
      by (auto simp: start_navigate_def Let_def)
  next
    case False
    with Inr show ?thesis by (cases "evaluate_title e") auto
  qed
qed

lemma start_steps:
  assumes "result_of (start e a) = Inr b"
  shows "(\<exists>h. (if chrome_installed e then launch_installed e else launch_bundled e) = Inr h) \<and>
         (\<exists>u. overridePermissions e = Inr u) \<and> (\<exists>p. newPage e = Inr p) \<and>
         (\<exists>u. goto e = Inr u) \<and>
         (scrapeData (config a) \<longrightarrow> (\<exists>d. evaluate_title e = Inr d))"
proof (cases "if chrome_installed e then launch_installed e else launch_bundled e")
  case (Inl err)
  with assms start_catch_not_Inr show ?thesis by (auto simp: start_def Let_def)
next
  case launched: (Inr h)
  show ?thesis
  proof (cases "overridePermissions e")
    case (Inl err)
    with launched assms start_catch_not_Inr show ?thesis by (auto simp: start_def Let_def)
  next
    case permitted: (Inr u)
    show ?thesis
    proof (cases "newPage e")
      case (Inl err)
      with launched permitted assms start_catch_not_Inr show ?thesis
        by (auto simp: start_def Let_def)
    next
      case (Inr p)
      with launched permitted assms
      have "result_of (start_navigate e
          [a\<lparr>status := Starting\<rparr>, a\<lparr>status := Starting, browser := Some h\<rparr>,
           a\<lparr>status := Starting, browser := Some h\<rparr>]
          (a\<lparr>status := Starting, browser := Some h, page := Some p\<rparr>)) = Inr b"
        by (simp add: start_def Let_def)
      from start_navigate_steps [OF this] launched permitted Inr show ?thesis
        by simp
    qed
  qed
qed

text \<open>
  C10. \<open>start()\<close> never returns false: it returns \<open>true\<close> or it throws. Every
  failure exits by throwing: when the launch, the permission override, the new page,
  the navigation or (with \<open>scrapeData\<close> set) the title scrape rejects, \<open>start()\<close>
  throws. So the branch of the handler of \<open>POST /agent/:id/start\<close> that answers 500
  on a falsy result is never taken.
\<close>

theorem start_never_returns_false:
  "(result_of (start e a) = Inr True \<or> (\<exists>err. result_of (start e a) = Inl err)) \<and>
   ((\<exists>err. (if chrome_installed e then launch_installed e else launch_bundled e) = Inl err) \<or>
    (\<exists>err. overridePermissions e = Inl err) \<or> (\<exists>err. newPage e = Inl err) \<or>
    (\<exists>err. goto e = Inl err) \<or>
    (scrapeData (config a) \<and> (\<exists>err. evaluate_title e = Inl err)) \<longrightarrow>
      (\<exists>err. result_of (start e a) = Inl err)) \<and>
   snd (start_handler e agents i) \<noteq> Start_500_falsy_result"
proof (intro conjI)
  show "result_of (start e a) = Inr True \<or> (\<exists>err. result_of (start e a) = Inl err)"
    by (rule start_result)
next
  show "(\<exists>err. (if chrome_installed e then launch_installed e else launch_bundled e) = Inl err) \<or>
    (\<exists>err. overridePermissions e = Inl err) \<or> (\<exists>err. newPage e = Inl err) \<or>
    (\<exists>err. goto e = Inl err) \<or>
    (scrapeData (config a) \<and> (\<exists>err. evaluate_title e = Inl err)) \<longrightarrow>
      (\<exists>err. result_of (start e a) = Inl err)"
  proof
    assume failure: "(\<exists>err. (if chrome_installed e then launch_installed e
          else launch_bundled e) = Inl err) \<or>
      (\<exists>err. overridePermissions e = Inl err) \<or> (\<exists>err. newPage e = Inl err) \<or>
      (\<exists>err. goto e = Inl err) \<or>
      (scrapeData (config a) \<and> (\<exists>err. evaluate_title e = Inl err))"
    show "\<exists>err. result_of (start e a) = Inl err"
    proof (cases "result_of (start e a)")
      case (Inl err)
      then show ?thesis by blast
    next
      case (Inr b)
      from start_steps [OF Inr] failure show ?thesis by auto
    qed
  qed
next
  show "snd (start_handler e agents i) \<noteq> Start_500_falsy_result"
  proof (cases "get_property agents i")
    case (Own b)
    with start_result [of e b] show ?thesis
      by (auto simp: start_handler_def result_of_def split: prod.splits sum.splits)
  next
    case Inherited
    then show ?thesis by (simp add: start_handler_def)
  next
    case Absent
    then show ?thesis by (simp add: start_handler_def)
  qed
qed

theorem start_never_returns_false_witness:
  "result_of (start reachable_env (new_PuppeteerAgent example_config)) = Inr True \<and>
   goto unreachable_env = Inl (Failure ''net::ERR_NAME_NOT_RESOLVED'') \<and>
   result_of (start unreachable_env (new_PuppeteerAgent example_config))
     = Inl (Failure ''net::ERR_NAME_NOT_RESOLVED'') \<and>
   snd (start_handler unreachable_env [''a1'' \<mapsto> new_PuppeteerAgent example_config] ''a1'')
     = Start_500_caught (Failure ''net::ERR_NAME_NOT_RESOLVED'')"
  using start_never_returns_false
    [of unreachable_env "new_PuppeteerAgent example_config"
        "[''a1'' \<mapsto> new_PuppeteerAgent example_config]" "''a1''"]
  by (simp add: start_handler_def get_property_def lifecycle_defs reachable_env_def
      unreachable_env_def closes_all_def)

lemma start_at_navigation:
  assumes "(if chrome_installed e then launch_installed e else launch_bundled e) = Inr b"
    and "overridePermissions e = Inr ()" and "newPage e = Inr p"
  shows "start e a =
     start_navigate e
       [a\<lparr>status := Starting\<rparr>, a\<lparr>status := Starting, browser := Some b\<rparr>,
        a\<lparr>status := Starting, browser := Some b\<rparr>]
       (a\<lparr>status := Starting, browser := Some b, page := Some p\<rparr>)"
  using assms by (simp add: start_def Let_def)

lemma start_navigate_failure_clean:
  assumes "goto e = Inl err" and "browser a = Some b" and "page a = Some p"
    and "page_close (cleanup_navigation e) = Inr ()"
    and "browser_close (cleanup_navigation e) = Inr ()"
  shows "result_of (start_navigate e t a) = Inl err"
    and "browser (agent_after (start_navigate e t a)) = None"
    and "page (agent_after (start_navigate e t a)) = None"
    and "status (agent_after (start_navigate e t a)) = Stopped"
  using assms
  by (simp_all add: start_navigate_def start_catch_def stop_def result_of_def agent_after_def)

text \<open>
  What \<open>start()\<close> does when the navigation fails and the session close of the
  teardown succeeds, for every agent: it throws the navigation error, the session handle
  is null and the status is \<open>stopped\<close>; the page handle is null when the page close
  succeeded too.
\<close>

lemma start_unreachable_general:
  assumes "(if chrome_installed e then launch_installed e else launch_bundled e) = Inr b"
    and "overridePermissions e = Inr ()" and "newPage e = Inr p" and "goto e = Inl err"
    and "browser_close (cleanup_navigation e) = Inr ()"
  shows "result_of (start e a) = Inl err \<and>
         status (agent_after (start e a)) = Stopped \<and>
         browser (agent_after (start e a)) = None \<and>
         (page_close (cleanup_navigation e) = Inr () \<longrightarrow> page (agent_after (start e a)) = None)"
proof (cases "page_close (cleanup_navigation e)")
  case (Inr u)
  let ?a = "a\<lparr>status := Starting, browser := Some b, page := Some p\<rparr>"
  have "browser ?a = Some b" and "page ?a = Some p" by simp_all
  with assms(4,5) Inr show ?thesis
    by (simp add: start_at_navigation [OF assms(1,2,3)] start_navigate_failure_clean)
next
  case (Inl err')
  with assms(4,5) show ?thesis
    by (cases "page_close (cleanup_outer e)")
      (simp_all add: start_at_navigation [OF assms(1,2,3)] start_navigate_def start_catch_def
        stop_def result_of_def agent_after_def)
qed

text \<open>
  When the session close of the teardown rejects, its error takes the place of the
  navigation error that \<open>start()\<close> throws.
\<close>

lemma start_masks_error:
  assumes "(if chrome_installed e then launch_installed e else launch_bundled e) = Inr b"
    and "overridePermissions e = Inr ()" and "newPage e = Inr p" and "goto e = Inl err"
    and "browser_close (cleanup_navigation e) = Inl err1"
    and "browser_close (cleanup_outer e) = Inr ()"
  shows "result_of (start e a) = Inl err1"
  using assms(4,5,6)
  by (cases "page_close (cleanup_navigation e)"; cases "page_close (cleanup_outer e)")
    (simp_all add: start_at_navigation [OF assms(1,2,3)] start_navigate_def start_catch_def
      stop_def result_of_def agent_after_def)

text \<open>
  C1 fails on the code. On a fresh agent whose navigation fails, with a teardown that
  works, \<open>start()\<close> throws the navigation error and both handles are null afterwards,
  but the status is \<open>stopped\<close> and not \<open>error\<close>: each \<open>catch\<close> block of
  \<open>start()\<close> assigns \<open>error\<close> and then awaits \<open>stop()\<close>, whose \<open>finally\<close>
  block assigns \<open>stopped\<close>.
\<close>

theorem start_unreachable_ends_stopped:
  "goto unreachable_env = Inl (Failure ''net::ERR_NAME_NOT_RESOLVED'') \<and>
   result_of (start unreachable_env (new_PuppeteerAgent example_config))
     = Inl (Failure ''net::ERR_NAME_NOT_RESOLVED'') \<and>
   status (agent_after (start unreachable_env (new_PuppeteerAgent example_config))) = Stopped \<and>
   browser (agent_after (start unreachable_env (new_PuppeteerAgent example_config))) = None \<and>
   page (agent_after (start unreachable_env (new_PuppeteerAgent example_config))) = None"
  by (simp add: lifecycle_defs unreachable_env_def closes_all_def)

text \<open>With a page whose \<open>close()\<close> rejects, the page handle is still there afterwards.\<close>

lemma start_unreachable_stuck_page:
  "status (agent_after (start unreachable_stuck_page_env (new_PuppeteerAgent example_config)))
     = Stopped \<and>
   page (agent_after (start unreachable_stuck_page_env (new_PuppeteerAgent example_config)))
     = Some 2"
  by (simp add: lifecycle_defs unreachable_env_def unreachable_stuck_page_env_def
      closes_all_def page_close_fails_def)

text \<open>
  C8, amended. At every observable point of an agent that is driven by sequential
  \<open>start()\<close> and \<open>stop()\<close> calls (between calls and at every suspension point
  inside them): a running agent has a browser session, and an agent with a browser
  session has status \<open>starting\<close>, \<open>running\<close> or \<open>error\<close>. At every suspension
  point inside \<open>start()\<close> and at its end, a running agent has both a browser session
  and a page.
\<close>

theorem session_fields_invariant:
  "(observable s \<longrightarrow>
      (status s = Running \<longrightarrow> browser s \<noteq> None) \<and>
      (browser s \<noteq> None \<longrightarrow> status s = Starting \<or> status s = Running \<or> status s = Error)) \<and>
   (s' \<in> set (observed (start e a)) \<longrightarrow>
      status s' = Running \<longrightarrow> browser s' \<noteq> None \<and> page s' \<noteq> None)"
proof (rule conjI)
  show "observable s \<longrightarrow>
      (status s = Running \<longrightarrow> browser s \<noteq> None) \<and>
      (browser s \<noteq> None \<longrightarrow> status s = Starting \<or> status s = Running \<or> status s = Error)"
  proof
    assume "observable s"
    then have "session_inv s" by (rule observable_session_inv)
    then show "(status s = Running \<longrightarrow> browser s \<noteq> None) \<and>
      (browser s \<noteq> None \<longrightarrow> status s = Starting \<or> status s = Running \<or> status s = Error)"
      by (simp add: session_inv_def)
  qed
next
  show "s' \<in> set (observed (start e a)) \<longrightarrow>
      status s' = Running \<longrightarrow> browser s' \<noteq> None \<and> page s' \<noteq> None"
  proof
    assume "s' \<in> set (observed (start e a))"
    then have "live_when_running s'" by (rule start_live)
    then show "status s' = Running \<longrightarrow> browser s' \<noteq> None \<and> page s' \<noteq> None"
      by (simp add: live_when_running_def)
  qed
qed

lemma started_agent_eq:
  "started_agent = \<lparr>browser = Some 1, page = Some 2, config = example_config, status = Running\<rparr>"
  by (simp add: lifecycle_defs started_agent_def reachable_env_def unreachable_env_def)

theorem session_fields_invariant_witness:
  "observable started_agent \<and>
   started_agent \<in> set (observed (start reachable_env (new_PuppeteerAgent example_config))) \<and>
   status started_agent = Running \<and>
   browser started_agent \<noteq> None \<and> page started_agent \<noteq> None"
proof -
  have q: "quiescent started_agent"
    unfolding started_agent_def by (rule quiescent.started) (rule quiescent.created)
  then have o: "observable started_agent" by (rule observable.at_rest)
  have m: "started_agent \<in> set (observed (start reachable_env (new_PuppeteerAgent example_config)))"
    by (simp add: started_agent_def observed_def agent_after_def)
  have r: "status started_agent = Running" by (simp add: started_agent_eq)
  from session_fields_invariant
    [of started_agent started_agent reachable_env "new_PuppeteerAgent example_config"] o m r
  show ?thesis by blast
qed

text \<open>
  C8 as stated fails: \<open>start()\<close> sets the status \<open>starting\<close> before it launches the
  browser, so at its first suspension point the status is \<open>starting\<close> and both
  handles are null.
\<close>

theorem session_fields_counterexample:
  "observable launching_agent \<and> status launching_agent = Starting \<and>
   browser launching_agent = None \<and> page launching_agent = None"
proof -
  have "launching_agent \<in> set (fst (start reachable_env (new_PuppeteerAgent example_config)))"
    by (simp add: lifecycle_defs launching_agent_def reachable_env_def unreachable_env_def)
  with quiescent.created have "observable launching_agent" by (rule observable.in_start)
  then show ?thesis by (simp add: launching_agent_def new_PuppeteerAgent_def)
qed

section \<open>Properties of the interaction routines\<close>

lemma promise_all_Inr:
  "promise_all xs = Inr vs \<Longrightarrow> length vs = length xs \<and> (\<forall>i<length xs. xs ! i = Inr (vs ! i))"
proof (induction xs arbitrary: vs)
  case Nil
  then show ?case by simp
next
  case (Cons x xs)
  from Cons.prems obtain v ws where x: "x = Inr v" and ws: "promise_all xs = Inr ws"
    and vs: "vs = v # ws"
    by (auto split: sum.splits)
  from Cons.IH [OF ws] x vs show ?case
    by (auto simp: nth_Cons split: nat.splits)
qed

lemma promise_all_Inl:
  "promise_all xs = Inl err \<Longrightarrow> Inl err \<in> set xs"
  by (induction xs) (auto split: sum.splits)

lemma promise_all_succeeds:
  "(\<forall>x\<in>set xs. \<exists>v. x = Inr v) \<Longrightarrow> \<exists>vs. promise_all xs = Inr vs"
  by (induction xs) (auto split: sum.splits)

lemma promise_all_fails:
  "Inl err \<in> set xs \<Longrightarrow> \<exists>err'. promise_all xs = Inl err'"
  by (induction xs) (auto split: sum.splits)

lemma read_row_Inr:
  assumes "read_row r = Inr p"
  shows "videoMuted p = (video_query r \<noteq> Inr None) \<and> audioMuted p = (audio_query r \<noteq> Inr None)"
  using assms
  by (auto simp: read_row_def await_def split: sum.splits option.splits)

lemma listParticipants_rows:
  assumes "openParticipantsPane (list_open e) a" and "list_rows e = Inr rows" and "rows \<noteq> []"
  shows "listParticipants e a =
     (case promise_all (map read_row rows) of Inl err \<Rightarrow> None | Inr ps \<Rightarrow> Some ps)"
proof -
  from assms(1) have "page a \<noteq> None"
    by (auto simp: openParticipantsPane_def split: if_splits)
  with assms show ?thesis
    by (simp add: listParticipants_def listParticipants_try_def await_def split: sum.splits)
qed

lemma listParticipants_no_rows:
  assumes "\<not> openParticipantsPane (list_open e) a \<or> list_rows e = Inr [] \<or> list_rows e = Inl err"
  shows "listParticipants e a = None"
  using assms
  by (auto simp: listParticipants_def listParticipants_try_def await_def)

text \<open>
  C5. \<open>listParticipants()\<close> returns \<open>null\<close> when the pane does not open (which
  includes an agent without a page), when no participant row is found, and when a query
  throws. Otherwise it returns a list with one entry for each row found, in which
  \<open>videoMuted\<close> and \<open>audioMuted\<close> are the booleans saying whether the row has the
  respective muted icon.
\<close>

theorem listParticipants_result:
  "(\<not> openParticipantsPane (list_open e) a \<longrightarrow> listParticipants e a = None) \<and>
   (list_rows e = Inr [] \<longrightarrow> listParticipants e a = None) \<and>
   ((\<exists>err. list_rows e = Inl err) \<longrightarrow> listParticipants e a = None) \<and>
   (\<forall>rows. list_rows e = Inr rows \<and> (\<exists>r\<in>set rows. \<exists>err. read_row r = Inl err) \<longrightarrow>
      listParticipants e a = None) \<and>
   (\<forall>rows. openParticipantsPane (list_open e) a \<and> list_rows e = Inr rows \<and> rows \<noteq> [] \<and>
        (\<forall>r\<in>set rows. \<exists>p. read_row r = Inr p) \<longrightarrow>
      (\<exists>ps. listParticipants e a = Some ps \<and> length ps = length rows \<and>
         (\<forall>i<length rows.
            videoMuted (ps ! i) = (video_query (rows ! i) \<noteq> Inr None) \<and>
            audioMuted (ps ! i) = (audio_query (rows ! i) \<noteq> Inr None))))"
proof (intro conjI allI impI)
  assume "\<not> openParticipantsPane (list_open e) a"
  then show "listParticipants e a = None" by (simp add: listParticipants_no_rows)
next
  assume "list_rows e = Inr []"
  then show "listParticipants e a = None" by (simp add: listParticipants_no_rows)
next
  assume "\<exists>err. list_rows e = Inl err"
  then show "listParticipants e a = None" using listParticipants_no_rows by blast
next
  fix rows
  assume h: "list_rows e = Inr rows \<and> (\<exists>r\<in>set rows. \<exists>err. read_row r = Inl err)"
  then obtain err where "Inl err \<in> set (map read_row rows)" by force
  then obtain err' where f: "promise_all (map read_row rows) = Inl err'"
    using promise_all_fails by blast
  from h have ne: "rows \<noteq> []" by auto
  show "listParticipants e a = None"
  proof (cases "openParticipantsPane (list_open e) a")
    case True
    with h ne f show ?thesis by (simp add: listParticipants_rows)
  next
    case False
    then show ?thesis by (simp add: listParticipants_no_rows)
  qed
next
  fix rows
  assume h: "openParticipantsPane (list_open e) a \<and> list_rows e = Inr rows \<and> rows \<noteq> [] \<and>
        (\<forall>r\<in>set rows. \<exists>p. read_row r = Inr p)"
  then have "\<forall>x\<in>set (map read_row rows). \<exists>v. x = Inr v" by auto
  then obtain ps where ps: "promise_all (map read_row rows) = Inr ps"
    using promise_all_succeeds by blast
  from promise_all_Inr [OF ps]
  have len: "length ps = length rows" and nth: "\<forall>i<length rows. read_row (rows ! i) = Inr (ps ! i)"
    by simp_all
  from h ps have "listParticipants e a = Some ps" by (simp add: listParticipants_rows)
  moreover from nth have "\<forall>i<length rows.
      videoMuted (ps ! i) = (video_query (rows ! i) \<noteq> Inr None) \<and>
      audioMuted (ps ! i) = (audio_query (rows ! i) \<noteq> Inr None)"
    using read_row_Inr by blast
  ultimately show "\<exists>ps. listParticipants e a = Some ps \<and> length ps = length rows \<and>
      (\<forall>i<length rows.
         videoMuted (ps ! i) = (video_query (rows ! i) \<noteq> Inr None) \<and>
         audioMuted (ps ! i) = (audio_query (rows ! i) \<noteq> Inr None))"
    using len by blast
qed

theorem listParticipants_result_witness:
  "openParticipantsPane (list_open two_rows_env) running_agent \<and>
   list_rows two_rows_env = Inr two_rows \<and> two_rows \<noteq> [] \<and>
   read_row (two_rows ! 0) = Inr \<lparr>name = Some ''Ada'', videoMuted = True, audioMuted = False\<rparr> \<and>
   read_row (two_rows ! 1) = Inr \<lparr>name = None, videoMuted = False, audioMuted = True\<rparr> \<and>
   listParticipants two_rows_env running_agent =
     Some [\<lparr>name = Some ''Ada'', videoMuted = True, audioMuted = False\<rparr>,
           \<lparr>name = None, videoMuted = False, audioMuted = True\<rparr>] \<and>
   \<not> openParticipantsPane pane_stuck running_agent \<and>
   listParticipants (two_rows_env\<lparr>list_open := pane_stuck\<rparr>) running_agent = None"
  using listParticipants_result [of two_rows_env running_agent]
    listParticipants_result [of "two_rows_env\<lparr>list_open := pane_stuck\<rparr>" running_agent]
  by (simp add: pane_defs read_row_def listParticipants_try_def listParticipants_def
      two_rows_env_def two_rows_def pane_opens_def pane_closes_def pane_stuck_def
      running_agent_def)

subsection \<open>The invite link\<close>

lemma match_atoms_Some:
  "match_atoms ts s = Some r \<Longrightarrow>
     s = take (length ts) s @ r \<and> list_all2 atom_matches ts (take (length ts) s)"
proof (induction ts s rule: match_atoms.induct)
  case (1 s) then show ?case by simp
next
  case (2 t ts) then show ?case by simp
next
  case (3 t ts x xs) then show ?case by (simp split: if_splits)
qed

lemma match_at_Some:
  assumes "match_at s = Some m"
  shows "link_shaped m" and "\<exists>post. s = m @ post"
proof -
  from assms obtain r where r: "match_atoms linkRegex_atoms s = Some r"
    and tl: "takeWhile alnum r \<noteq> []"
    and m: "m = take (length linkRegex_atoms) s @ takeWhile alnum r"
    by (auto simp: match_at_def Let_def split: option.splits if_splits)
  from match_atoms_Some [OF r]
  have s: "s = take (length linkRegex_atoms) s @ r"
    and p: "list_all2 atom_matches linkRegex_atoms (take (length linkRegex_atoms) s)"
    by simp_all
  have "list_all alnum (takeWhile alnum r)"
    by (simp add: list_all_iff) (meson set_takeWhileD)
  with m p tl show "link_shaped m"
    unfolding link_shaped_def by blast
  have "r = takeWhile alnum r @ dropWhile alnum r" by simp
  with s m have "s = m @ dropWhile alnum r"
    by (metis append.assoc)
  then show "\<exists>post. s = m @ post" ..
qed

lemma regex_match_Some:
  "regex_match s = Some m \<Longrightarrow> link_shaped m \<and> (\<exists>pre post. s = pre @ m @ post)"
proof (induction s)
  case Nil then show ?case by simp
next
  case (Cons c cs)
  show ?case
  proof (cases "match_at (c # cs)")
    case (Some m')
    with Cons.prems have "m' = m" by simp
    with Some match_at_Some [of "c # cs" m] show ?thesis
      by (metis append_Nil)
  next
    case None
    with Cons.prems have "regex_match cs = Some m" by simp
    with Cons.IH obtain pre post where "link_shaped m" "cs = pre @ m @ post" by blast
    then have "c # cs = (c # pre) @ m @ post" by simp
    with \<open>link_shaped m\<close> show ?thesis by blast
  qed
qed


lemma match_atoms_complete:
  "list_all2 atom_matches ts p \<Longrightarrow> match_atoms ts (p @ r) = Some r"
  by (induction ts p rule: list_all2_induct) simp_all

lemma match_at_complete:
  assumes "link_shaped m'"
  shows "\<exists>m. match_at (m' @ post) = Some m \<and> length m' \<le> length m"
proof -
  from assms obtain p tl where m': "m' = p @ tl"
    and p: "list_all2 atom_matches linkRegex_atoms p" and tl: "tl \<noteq> []" "list_all alnum tl"
    unfolding link_shaped_def by blast
  from p have len: "length p = length linkRegex_atoms"
    by (simp add: list_all2_lengthD)
  from p have r: "match_atoms linkRegex_atoms (p @ tl @ post) = Some (tl @ post)"
    by (rule match_atoms_complete)
  from tl(2) have tw: "takeWhile alnum (tl @ post) = tl @ takeWhile alnum post"
    by (simp add: list_all_iff takeWhile_append2)
  from r tw tl(1) len have "match_at (m' @ post) = Some (p @ tl @ takeWhile alnum post)"
    by (simp add: match_at_def m')
  then show ?thesis by (simp add: m')
qed

lemma link_shaped_nonempty: "link_shaped m \<Longrightarrow> m \<noteq> []"
  by (auto simp: link_shaped_def)

lemma regex_match_leftmost:
  "regex_match s = Some m \<Longrightarrow>
     \<exists>pre post. s = pre @ m @ post \<and> match_at (m @ post) = Some m \<and>
       (\<forall>k<length pre. match_at (drop k s) = None)"
proof (induction s)
  case Nil
  then show ?case by simp
next
  case (Cons c cs)
  show ?case
  proof (cases "match_at (c # cs)")
    case (Some m')
    with Cons.prems have eq: "m' = m" by simp
    from match_at_Some(2) [OF Some] eq obtain post where "c # cs = m @ post" by blast
    with Some eq have "c # cs = [] @ m @ post \<and> match_at (m @ post) = Some m \<and>
        (\<forall>k<length ([]::js_string). match_at (drop k (c # cs)) = None)"
      by simp
    then show ?thesis by blast
  next
    case None
    with Cons.prems have "regex_match cs = Some m" by simp
    from Cons.IH [OF this] obtain pre post where cs: "cs = pre @ m @ post"
      and at: "match_at (m @ post) = Some m"
      and before: "\<forall>k<length pre. match_at (drop k cs) = None"
      by blast
    have "\<forall>k<length (c # pre). match_at (drop k (c # cs)) = None"
    proof (intro allI impI)
      fix k assume "k < length (c # pre)"
      then show "match_at (drop k (c # cs)) = None"
        using None before by (cases k) simp_all
    qed
    moreover from cs have "c # cs = (c # pre) @ m @ post" by simp
    ultimately show ?thesis using at by blast
  qed
qed

lemma regex_match_None:
  "regex_match s = None \<Longrightarrow> k < length s \<Longrightarrow> match_at (drop k s) = None"
proof (induction s arbitrary: k)
  case Nil
  then show ?case by simp
next
  case (Cons c cs)
  from Cons.prems(1) have here: "match_at (c # cs) = None" and rest: "regex_match cs = None"
    by (simp_all split: option.splits)
  show ?case
  proof (cases k)
    case 0
    with here show ?thesis by simp
  next
    case (Suc j)
    with Cons.prems(2) have "j < length cs" by simp
    from Cons.IH [OF rest this] Suc show ?thesis by simp
  qed
qed

lemma regex_match_complete:
  assumes "link_at s k m'"
  shows "regex_match s \<noteq> None"
proof
  assume none: "regex_match s = None"
  from assms obtain pre post where s: "s = pre @ m' @ post" and k: "length pre = k"
    and shaped: "link_shaped m'"
    unfolding link_at_def by blast
  from shaped have "m' \<noteq> []" by (rule link_shaped_nonempty)
  with s k have "k < length s" by simp
  with none have "match_at (drop k s) = None" by (rule regex_match_None)
  moreover from s k have "drop k s = m' @ post" by simp
  ultimately show False using match_at_complete [OF shaped, of post] by simp
qed

lemma regex_match_longest_leftmost:
  assumes "regex_match s = Some m"
  shows "\<exists>k. link_at s k m \<and>
     (\<forall>k' m'. link_at s k' m' \<longrightarrow> k < k' \<or> (k = k' \<and> length m' \<le> length m))"
proof -
  from regex_match_leftmost [OF assms] obtain pre post where s: "s = pre @ m @ post"
    and at: "match_at (m @ post) = Some m"
    and before: "\<forall>k<length pre. match_at (drop k s) = None"
    by blast
  from match_at_Some(1) [OF at] s have here: "link_at s (length pre) m"
    unfolding link_at_def by blast
  have "k' > length pre \<or> (length pre = k' \<and> length m' \<le> length m)"
    if other: "link_at s k' m'" for k' m'
  proof -
    from other obtain pre' post' where s': "s = pre' @ m' @ post'" and k': "length pre' = k'"
      and shaped: "link_shaped m'"
      unfolding link_at_def by blast
    from s' k' have d: "drop k' s = m' @ post'" by simp
    from match_at_complete [OF shaped, of post'] d obtain m'' where
      m'': "match_at (drop k' s) = Some m''" and le: "length m' \<le> length m''"
      by auto
    show ?thesis
    proof (cases "k' < length pre")
      case True
      with before m'' show ?thesis by simp
    next
      case False
      show ?thesis
      proof (cases "k' = length pre")
        case True
        with s have "drop k' s = m @ post" by simp
        with m'' at have "m'' = m" by simp
        with le True show ?thesis by simp
      next
        case False
        with \<open>\<not> k' < length pre\<close> show ?thesis by simp
      qed
    qed
  qed
  with here show ?thesis by blast
qed


lemma found_iff: "found x \<longleftrightarrow> (\<exists>h. x = Inr (Some h))"
  by (auto simp: found_def split: sum.splits option.splits)

lemma clickShareLinkButton_Some:
  assumes "clickShareLinkButton e a = Some m"
  shows "share_flow_completes e a \<and>
     (\<exists>content. clipboard_text e = Inr content \<and> regex_match content = Some m)"
proof -
  from assms have pg: "page a \<noteq> None" and t: "clickShareLinkButton_try e a = Inr (Some m)"
    by (auto simp: clickShareLinkButton_def Let_def split: if_splits sum.splits)
  from t show ?thesis
    unfolding clickShareLinkButton_try_def share_flow_completes_def found_iff Let_def
    using pg
    by (auto simp: await_Inr_iff split: if_splits option.splits)
qed

lemma clickShareLinkButton_completes:
  assumes "share_flow_completes e a"
  shows "clickShareLinkButton e a =
     (case clipboard_text e of Inl err \<Rightarrow> None | Inr content \<Rightarrow> regex_match content)"
proof -
  from assms obtain b1 b2 b3 where
    "page a \<noteq> None" "openParticipantsPane (share_open e) a"
    "invite_button e = Inr (Some b1)" "invite_click e = Inr ()"
    "copy_button e = Inr (Some b2)" "copy_click e = Inr ()"
    "dialog_button e = Inr (Some b3)" "dialog_click e = Inr ()" "dialog_hidden e = Inr ()"
    and mv: "share_viewport e = None \<or> share_mouse_move e = Inr ()"
    unfolding share_flow_completes_def found_iff by blast
  then have "clickShareLinkButton e a =
     (case await (clipboard_text e) (\<lambda>inviteLink.
        await (case share_viewport e of None \<Rightarrow> Inr () | Some v \<Rightarrow> share_mouse_move e)
          (\<lambda>u. Inr (regex_match inviteLink)))
      of Inl err \<Rightarrow> None | Inr r \<Rightarrow> r)"
    by (auto simp: clickShareLinkButton_def clickShareLinkButton_try_def await_def Let_def
        split: sum.splits)
  also from mv have "\<dots> = (case clipboard_text e of Inl err \<Rightarrow> None | Inr content \<Rightarrow> regex_match content)"
    by (auto simp: await_def split: sum.splits option.splits)
  finally show ?thesis .
qed

lemma clickShareLinkButton_eq:
  "clickShareLinkButton e a =
     (if share_flow_completes e a
      then (case clipboard_text e of Inl err \<Rightarrow> None | Inr content \<Rightarrow> regex_match content)
      else None)"
proof (cases "share_flow_completes e a")
  case True
  then show ?thesis by (simp add: clickShareLinkButton_completes)
next
  case False
  then have "clickShareLinkButton e a = None"
    using clickShareLinkButton_Some [of e a] by (cases "clickShareLinkButton e a") auto
  with False show ?thesis by simp
qed


text \<open>
  C6, amended. \<open>clickShareLinkButton()\<close> returns \<open>null\<close> if any of the three
  controls (invite, copy-link, close-dialog) is not found within its wait window, and
  also if there is no page, the pane does not open, a click fails, the dialog does not
  disappear within its wait window, the clipboard cannot be read or the final mouse move
  fails. Otherwise it returns the leftmost match of the invite-link pattern in the
  clipboard text, or \<open>null\<close> if the clipboard text has no match. Every string it
  returns matches the pattern and is a part of the clipboard text; when the flow
  completes and the clipboard text holds a string that matches the pattern, the result
  is not \<open>null\<close>; and no string that matches the pattern starts earlier in the
  clipboard text than the result, or starts at the same place and is longer.
\<close>

theorem clickShareLinkButton_result:
  "(\<not> found (invite_button e) \<or> \<not> found (copy_button e) \<or> \<not> found (dialog_button e) \<longrightarrow>
      clickShareLinkButton e a = None) \<and>
   clickShareLinkButton e a =
     (if share_flow_completes e a
      then (case clipboard_text e of Inl err \<Rightarrow> None | Inr txt \<Rightarrow> regex_match txt)
      else None) \<and>
   (\<forall>m. clickShareLinkButton e a = Some m \<longrightarrow>
      link_shaped m \<and> (\<exists>txt pre post. clipboard_text e = Inr txt \<and> txt = pre @ m @ post)) \<and>
   (\<forall>content. share_flow_completes e a \<and> clipboard_text e = Inr content \<and>
        (\<exists>k m. link_at content k m) \<longrightarrow>
      clickShareLinkButton e a \<noteq> None) \<and>
   (\<forall>m. clickShareLinkButton e a = Some m \<longrightarrow>
      (\<exists>content k. clipboard_text e = Inr content \<and> link_at content k m \<and>
         (\<forall>k' m'. link_at content k' m' \<longrightarrow> k < k' \<or> (k = k' \<and> length m' \<le> length m))))"
proof (intro conjI)
  show "\<not> found (invite_button e) \<or> \<not> found (copy_button e) \<or> \<not> found (dialog_button e) \<longrightarrow>
      clickShareLinkButton e a = None"
    by (auto simp: clickShareLinkButton_eq share_flow_completes_def)
next
  show "clickShareLinkButton e a =
     (if share_flow_completes e a
      then (case clipboard_text e of Inl err \<Rightarrow> None | Inr txt \<Rightarrow> regex_match txt)
      else None)"
    by (rule clickShareLinkButton_eq)
next
  show "\<forall>m. clickShareLinkButton e a = Some m \<longrightarrow>
      link_shaped m \<and> (\<exists>txt pre post. clipboard_text e = Inr txt \<and> txt = pre @ m @ post)"
  proof (intro allI impI)
    fix m
    assume "clickShareLinkButton e a = Some m"
    then obtain content where clip: "clipboard_text e = Inr content"
      and m: "regex_match content = Some m"
      using clickShareLinkButton_Some by blast
    from regex_match_Some [OF m] clip
    show "link_shaped m \<and> (\<exists>txt pre post. clipboard_text e = Inr txt \<and> txt = pre @ m @ post)"
      by blast
  qed
next
  show "\<forall>content. share_flow_completes e a \<and> clipboard_text e = Inr content \<and>
        (\<exists>k m. link_at content k m) \<longrightarrow>
      clickShareLinkButton e a \<noteq> None"
  proof (intro allI impI)
    fix content
    assume h: "share_flow_completes e a \<and> clipboard_text e = Inr content \<and>
        (\<exists>k m. link_at content k m)"
    then have "regex_match content \<noteq> None"
      using regex_match_complete by blast
    with h show "clickShareLinkButton e a \<noteq> None"
      by (simp add: clickShareLinkButton_completes)
  qed
next
  show "\<forall>m. clickShareLinkButton e a = Some m \<longrightarrow>
      (\<exists>content k. clipboard_text e = Inr content \<and> link_at content k m \<and>
         (\<forall>k' m'. link_at content k' m' \<longrightarrow> k < k' \<or> (k = k' \<and> length m' \<le> length m)))"
  proof (intro allI impI)
    fix m
    assume "clickShareLinkButton e a = Some m"
    then obtain content where clip: "clipboard_text e = Inr content"
      and m: "regex_match content = Some m"
      using clickShareLinkButton_Some by blast
    from regex_match_longest_leftmost [OF m] clip
    show "\<exists>content k. clipboard_text e = Inr content \<and> link_at content k m \<and>
         (\<forall>k' m'. link_at content k' m' \<longrightarrow> k < k' \<or> (k = k' \<and> length m' \<le> length m))"
      by blast
  qed
qed

lemma regex_match_example:
  "regex_match (lit ''Join: https://jitsi.3git.eu/Room42 now'') = Some (lit ''https://jitsi.3git.eu/Room42'')"
  by (simp add: lit_def match_at_def linkRegex_atoms_def line_terminator_def alnum_def)

lemma regex_match_two_links:
  "regex_match (lit ''https://jitsi.3git.eu/RoomA https://jitsi.3git.eu/RoomB'')
     = Some (lit ''https://jitsi.3git.eu/RoomA'')"
  by (simp add: lit_def match_at_def linkRegex_atoms_def line_terminator_def alnum_def)

theorem clickShareLinkButton_result_witness:
  "found (invite_button share_ok_env) \<and> found (copy_button share_ok_env) \<and>
   found (dialog_button share_ok_env) \<and> share_flow_completes share_ok_env running_agent \<and>
   clickShareLinkButton share_ok_env running_agent = Some (lit ''https://jitsi.3git.eu/Room42'') \<and>
   link_shaped (lit ''https://jitsi.3git.eu/Room42'') \<and>
   (\<exists>k. link_at (lit ''Join: https://jitsi.3git.eu/Room42 now'') k
      (lit ''https://jitsi.3git.eu/Room42'')) \<and>
   share_flow_completes share_two_links_env running_agent \<and>
   clickShareLinkButton share_two_links_env running_agent
     = Some (lit ''https://jitsi.3git.eu/RoomA'') \<and>
   \<not> found (invite_button (share_ok_env\<lparr>invite_button := Inl TimeoutError\<rparr>)) \<and>
   clickShareLinkButton (share_ok_env\<lparr>invite_button := Inl TimeoutError\<rparr>) running_agent = None"
proof -
  have c: "share_flow_completes share_ok_env running_agent"
    by (simp add: pane_defs found_def share_flow_completes_def share_ok_env_def pane_opens_def
        running_agent_def)
  then have c2: "share_flow_completes share_two_links_env running_agent"
    by (simp add: share_flow_completes_def share_two_links_env_def)
  have t: "clipboard_text share_ok_env = Inr (lit ''Join: https://jitsi.3git.eu/Room42 now'')"
    by (simp add: share_ok_env_def)
  have t2: "clipboard_text share_two_links_env
      = Inr (lit ''https://jitsi.3git.eu/RoomA https://jitsi.3git.eu/RoomB'')"
    by (simp add: share_two_links_env_def)
  have f: "\<not> found (invite_button (share_ok_env\<lparr>invite_button := Inl TimeoutError\<rparr>))"
    by (simp add: found_def)
  note r = clickShareLinkButton_result [of share_ok_env running_agent]
  from r c t
  have 1: "clickShareLinkButton share_ok_env running_agent = Some (lit ''https://jitsi.3git.eu/Room42'')"
    by (simp add: regex_match_example)
  with r have 2: "link_shaped (lit ''https://jitsi.3git.eu/Room42'')"
    by blast
  from r 1 t have 3: "\<exists>k. link_at (lit ''Join: https://jitsi.3git.eu/Room42 now'') k
      (lit ''https://jitsi.3git.eu/Room42'')"
    by (metis sum.inject(2))
  from clickShareLinkButton_result [of share_two_links_env running_agent] c2 t2
  have 4: "clickShareLinkButton share_two_links_env running_agent
      = Some (lit ''https://jitsi.3git.eu/RoomA'')"
    by (simp add: regex_match_two_links)
  from clickShareLinkButton_result
    [of "share_ok_env\<lparr>invite_button := Inl TimeoutError\<rparr>" running_agent] f
  have 5: "clickShareLinkButton (share_ok_env\<lparr>invite_button := Inl TimeoutError\<rparr>) running_agent = None"
    by blast
  have "found (invite_button share_ok_env)" "found (copy_button share_ok_env)"
    "found (dialog_button share_ok_env)"
    by (simp_all add: found_def share_ok_env_def)
  with c c2 f 1 2 3 4 5 show ?thesis by blast
qed

text \<open>
  C6 as stated fails: with all three controls found and a clipboard text that has a
  match, the result is still \<open>null\<close> when the confirmation dialog does not disappear
  within its wait window (the wait rejects and the \<open>catch\<close> block returns \<open>null\<close>).
\<close>

theorem clickShareLinkButton_counterexample:
  "found (invite_button share_dialog_stays_env) \<and> found (copy_button share_dialog_stays_env) \<and>
   found (dialog_button share_dialog_stays_env) \<and>
   clipboard_text share_dialog_stays_env = Inr (lit ''Join: https://jitsi.3git.eu/Room42 now'') \<and>
   regex_match (lit ''Join: https://jitsi.3git.eu/Room42 now'')
     = Some (lit ''https://jitsi.3git.eu/Room42'') \<and>
   clickShareLinkButton share_dialog_stays_env running_agent = None"
  by (simp add: regex_match_example) (simp add: pane_defs found_def clickShareLinkButton_try_def clickShareLinkButton_def
      share_dialog_stays_env_def share_ok_env_def pane_opens_def pane_closes_def
      running_agent_def)

section \<open>Properties of coldStart() and getScreenshot()\<close>

lemma coldStart_try_True:
  assumes "coldStart_try e = Inr b"
  shows "b \<and> (\<exists>ts. cold_titles e = Inr ts \<and> ''Example Domain'' \<in> set ts)"
  using assms
  unfolding coldStart_try_def waitForFunction_title_def expectedTitle_def
  by (auto simp: await_Inr_iff split: if_splits)

lemma coldStart_try_steps:
  assumes "coldStart_try e = Inr b"
  shows "(\<exists>h. (if cold_chrome_installed e then cold_launch_installed e
               else cold_launch_bundled e) = Inr h) \<and>
         (\<exists>u. cold_goto e = Inr u) \<and>
         (\<exists>u. waitForFunction_title (cold_titles e) expectedTitle = Inr u)"
  using assms unfolding coldStart_try_def
  by (auto simp: await_Inr_iff)

lemma coldStart_try_fails:
  assumes "(\<exists>err. (if cold_chrome_installed e then cold_launch_installed e
                   else cold_launch_bundled e) = Inl err) \<or>
           (\<exists>err. cold_goto e = Inl err) \<or>
           (\<exists>err. waitForFunction_title (cold_titles e) expectedTitle = Inl err)"
  shows "\<exists>err. coldStart_try e = Inl err"
proof (cases "coldStart_try e")
  case (Inl err)
  then show ?thesis by blast
next
  case (Inr b)
  from coldStart_try_steps [OF Inr] assms show ?thesis by auto
qed

text \<open>
  C7. \<open>coldStart()\<close> always returns a boolean (it never rejects). It returns true only
  when the title of the reference page was seen to equal \<open>Example Domain\<close> within the
  wait window, and it returns false whenever the launch, the navigation or the wait for
  the title fails.
\<close>

theorem coldStart_result:
  "(\<exists>b. coldStart e a = Inr b) \<and>
   (coldStart e a = Inr True \<longrightarrow>
      (\<exists>ts. cold_titles e = Inr ts \<and> ''Example Domain'' \<in> set ts)) \<and>
   ((\<exists>err. (if cold_chrome_installed e then cold_launch_installed e
             else cold_launch_bundled e) = Inl err) \<or>
    (\<exists>err. cold_goto e = Inl err) \<or>
    (\<exists>err. waitForFunction_title (cold_titles e) expectedTitle = Inl err) \<longrightarrow>
      coldStart e a = Inr False)"
proof (intro conjI)
  show "\<exists>b. coldStart e a = Inr b"
    by (cases "coldStart_try e") (auto simp: coldStart_def)
next
  show "coldStart e a = Inr True \<longrightarrow>
      (\<exists>ts. cold_titles e = Inr ts \<and> ''Example Domain'' \<in> set ts)"
  proof
    assume "coldStart e a = Inr True"
    then have "coldStart_try e = Inr True"
      by (simp add: coldStart_def split: sum.splits)
    then show "\<exists>ts. cold_titles e = Inr ts \<and> ''Example Domain'' \<in> set ts"
      using coldStart_try_True by blast
  qed
next
  show "(\<exists>err. (if cold_chrome_installed e then cold_launch_installed e
             else cold_launch_bundled e) = Inl err) \<or>
    (\<exists>err. cold_goto e = Inl err) \<or>
    (\<exists>err. waitForFunction_title (cold_titles e) expectedTitle = Inl err) \<longrightarrow>
      coldStart e a = Inr False"
  proof
    assume "(\<exists>err. (if cold_chrome_installed e then cold_launch_installed e
             else cold_launch_bundled e) = Inl err) \<or>
        (\<exists>err. cold_goto e = Inl err) \<or>
        (\<exists>err. waitForFunction_title (cold_titles e) expectedTitle = Inl err)"
    then obtain err where "coldStart_try e = Inl err"
      using coldStart_try_fails by blast
    then show "coldStart e a = Inr False" by (simp add: coldStart_def)
  qed
qed

theorem coldStart_result_witness:
  "coldStart cold_ok_env running_agent = Inr True \<and>
   cold_titles cold_ok_env = Inr ['''', ''Example Domain''] \<and>
   waitForFunction_title (cold_titles cold_wrong_title_env) expectedTitle = Inl TimeoutError \<and>
   coldStart cold_wrong_title_env running_agent = Inr False"
  using coldStart_result [of cold_ok_env running_agent]
    coldStart_result [of cold_wrong_title_env running_agent]
  by (simp add: cold_defs cold_ok_env_def cold_wrong_title_env_def)

text \<open>
  C9 fails on the code. With a page whose \<open>screenshot()\<close> rejects,
  \<open>getScreenshot()\<close> rejects with the same error instead of returning \<open>null\<close>: the
  promise is returned from the \<open>try\<close> block without \<open>await\<close>, so the \<open>catch\<close>
  block never sees the rejection. Without a page the function ends without a
  \<open>return\<close> and gives \<open>undefined\<close>.
\<close>

theorem getScreenshot_rejects:
  "getScreenshot (Rejects (Failure ''Target closed'')) running_agent
     = Inl (Failure ''Target closed'') \<and>
   getScreenshot (Resolves [0x89, 0x50, 0x4E, 0x47]) running_agent
     = Inr (Image [0x89, 0x50, 0x4E, 0x47]) \<and>
   getScreenshot (Resolves [0x89, 0x50, 0x4E, 0x47]) (new_PuppeteerAgent example_config)
     = Inr Undefined"
  by (simp add: getScreenshot_def running_agent_def new_PuppeteerAgent_def)

section \<open>Properties of the registry\<close>

lemma get_property_Own: "obj key = Some v \<Longrightarrow> get_property obj key = Own v"
  by (simp add: get_property_def)

lemma exec_handler_other_codes:
  assumes "code \<noteq> ''cold_start''"
  shows "fst (exec_handler e agents i code) = agents"
  using assms by (simp add: exec_handler_def Let_def split: property.splits)

lemma exec_handler_cold_start:
  assumes "get_property agents i \<noteq> Absent"
  shows "fst (exec_handler e agents i ''cold_start'')
     = agents(exec_uuid e \<mapsto> new_PuppeteerAgent cold_start_config)"
  using assms by (simp add: exec_handler_def Let_def split: property.splits sum.splits)

lemma create_handler_registry:
  "fst (create_handler uuid write body agents d) = agents(uuid \<mapsto> new_PuppeteerAgent body)"
  by (simp add: create_handler_def Let_def)

lemma delete_handler_registry:
  "dom (fst (delete_handler e write agents d i)) = dom agents \<or>
   dom (fst (delete_handler e write agents d i)) = dom agents - {i}"
  by (auto simp: delete_handler_def get_property_def Let_def
      split: option.splits prod.splits sum.splits if_splits)

lemma start_handler_registry: "dom (fst (start_handler e agents i)) = dom agents"
  by (auto simp: start_handler_def get_property_def
      split: option.splits prod.splits sum.splits if_splits)

text \<open>
  C2 fails on the code. The \<open>cold_start\<close> case of \<open>POST /agent/:id/exec\<close> stores a
  temporary agent in the registry under a fresh identifier and never removes it: after
  the request the registry of one agent has two. (The other two codes and an unknown
  code leave the registry as it is: \<open>exec_handler_other_codes\<close>.)
\<close>

theorem exec_cold_start_adds_agent:
  "one_agent ''a1'' = Some running_agent \<and> one_agent ''u2'' = None \<and>
   fst (exec_handler exec_example_env one_agent ''a1'' ''cold_start'') ''u2''
     = Some (new_PuppeteerAgent cold_start_config) \<and>
   dom (fst (exec_handler exec_example_env one_agent ''a1'' ''cold_start'')) = {''a1'', ''u2''} \<and>
   snd (exec_handler exec_example_env one_agent ''a1'' ''cold_start'')
     = Exec_200 True (Data_flag (Some True))"
proof -
  have a: "one_agent ''a1'' = Some running_agent" and n: "one_agent ''u2'' = None"
    by (simp_all add: one_agent_def)
  have c: "coldStart cold_ok_env (new_PuppeteerAgent cold_start_config) = Inr True"
    by (simp add: cold_defs cold_ok_env_def)
  have u: "exec_uuid exec_example_env = ''u2''" and k: "exec_cold exec_example_env = cold_ok_env"
    by (simp_all add: exec_example_env_def)
  have r: "fst (exec_handler exec_example_env one_agent ''a1'' ''cold_start'')
      = one_agent(''u2'' \<mapsto> new_PuppeteerAgent cold_start_config)"
    using exec_handler_cold_start [of one_agent "''a1''" exec_example_env] a u
    by (simp add: get_property_Own)
  have s: "snd (exec_handler exec_example_env one_agent ''a1'' ''cold_start'')
      = Exec_200 True (Data_flag (Some True))"
    using a c u k by (simp add: exec_handler_def get_property_Own Let_def)
  have d: "dom one_agent = {''a1''}" by (simp add: one_agent_def)
  from a n r s d show ?thesis by auto
qed

section \<open>Properties of the snapshot file\<close>

lemma load_after_save:
  assumes "write = Inr ()" and "exists_call e = Inr ()" and "text_call e = Inr ()"
  shows "loadAgentsFromFile e (saveAgentsToFile write agents d)
     = assign_each (\<lambda>a. new_PuppeteerAgent (config a)) agents"
  using assms
  by (auto simp: saveAgentsToFile_def loadAgentsFromFile_def loadAgentsFromFile_try_def
      assign_each_def await_def getConfig_def Let_def option.map_comp comp_def)

text \<open>
  C4. Saving a map of agents to the snapshot file and loading the file (both without an
  I/O failure) gives a map with the same identifiers, so with as many agents, in which
  every agent has the configuration of the saved one, status \<open>idle\<close> and no browser or
  page handle. This is for a map in which no identifier is \<open>__proto__\<close>, as in the
  registry of the server, whose identifiers are UUIDs: an agent under that key is
  not written (\<open>save_drops_proto\<close>).
\<close>

theorem save_load_roundtrip:
  assumes "write = Inr ()" and "exists_call e = Inr ()" and "text_call e = Inr ()"
    and "''__proto__'' \<notin> dom agents"
  shows "dom (loadAgentsFromFile e (saveAgentsToFile write agents d)) = dom agents \<and>
         card (dom (loadAgentsFromFile e (saveAgentsToFile write agents d))) = card (dom agents) \<and>
         (\<forall>i a. agents i = Some a \<longrightarrow>
            loadAgentsFromFile e (saveAgentsToFile write agents d) i
              = Some \<lparr>browser = None, page = None, config = config a, status = Idle\<rparr>)"
proof -
  let ?L = "loadAgentsFromFile e (saveAgentsToFile write agents d)"
  have "?L = assign_each (\<lambda>a. new_PuppeteerAgent (config a)) agents"
    using assms(1,2,3) by (rule load_after_save)
  also have "\<dots> = (\<lambda>i. map_option (\<lambda>a. new_PuppeteerAgent (config a)) (agents i))"
    using assms(4) by (auto simp: assign_each_def fun_eq_iff)
  finally have L: "?L = (\<lambda>i. map_option (\<lambda>a. new_PuppeteerAgent (config a)) (agents i))" .
  have "dom ?L = dom agents"
    unfolding L by (auto simp: dom_def)
  moreover have "\<forall>i a. agents i = Some a \<longrightarrow>
      ?L i = Some \<lparr>browser = None, page = None, config = config a, status = Idle\<rparr>"
    unfolding L by (simp add: new_PuppeteerAgent_def)
  ultimately show ?thesis by simp
qed

theorem save_load_roundtrip_witness:
  "exists_call file_answers = Inr () \<and> text_call file_answers = Inr () \<and>
   ''__proto__'' \<notin> dom two_agents \<and>
   dom two_agents = {''a1'', ''a2''} \<and>
   dom (loadAgentsFromFile file_answers (saveAgentsToFile (Inr ()) two_agents None))
     = {''a1'', ''a2''} \<and>
   loadAgentsFromFile file_answers (saveAgentsToFile (Inr ()) two_agents None) ''a1''
     = Some \<lparr>browser = None, page = None, config = example_config, status = Idle\<rparr> \<and>
   loadAgentsFromFile file_answers (saveAgentsToFile (Inr ()) two_agents None) ''a2''
     = Some \<lparr>browser = None, page = None, config = other_config, status = Idle\<rparr>"
proof -
  have h: "exists_call file_answers = Inr ()" "text_call file_answers = Inr ()"
    by (simp_all add: file_answers_def)
  have d: "dom two_agents = {''a1'', ''a2''}"
    by (auto simp: two_agents_def)
  then have n: "''__proto__'' \<notin> dom two_agents" by simp
  have a: "two_agents ''a1'' = Some running_agent"
    "two_agents ''a2'' = Some (new_PuppeteerAgent other_config)"
    by (simp_all add: two_agents_def)
  have c: "config running_agent = example_config"
    "config (new_PuppeteerAgent other_config) = other_config"
    by (simp_all add: running_agent_def new_PuppeteerAgent_def)
  note roundtrip = save_load_roundtrip [OF refl h n, of None]
  from roundtrip d
  have 1: "dom (loadAgentsFromFile file_answers (saveAgentsToFile (Inr ()) two_agents None))
      = {''a1'', ''a2''}"
    by simp
  from roundtrip a(1) c(1)
  have 2: "loadAgentsFromFile file_answers (saveAgentsToFile (Inr ()) two_agents None) ''a1''
      = Some \<lparr>browser = None, page = None, config = example_config, status = Idle\<rparr>"
    by metis
  from roundtrip a(2) c(2)
  have 3: "loadAgentsFromFile file_answers (saveAgentsToFile (Inr ()) two_agents None) ''a2''
      = Some \<lparr>browser = None, page = None, config = other_config, status = Idle\<rparr>"
    by metis
  from h n d 1 2 3 show ?thesis by simp
qed

text \<open>An agent under the key \<open>__proto__\<close> is not written to the file.\<close>

lemma save_drops_proto:
  assumes "write = Inr ()" and "exists_call e = Inr ()" and "text_call e = Inr ()"
  shows "loadAgentsFromFile e (saveAgentsToFile write agents d) ''__proto__'' = None"
  using assms by (simp add: load_after_save assign_each_def)

text \<open>
  A created agent, after a restart: \<open>POST /agent/create\<close> followed by
  \<open>loadAgentsFromFile\<close> gives an idle agent with the configuration of the request.
\<close>

lemma create_then_load:
  assumes "write = Inr ()" and "exists_call e = Inr ()" and "text_call e = Inr ()"
    and "uuid \<noteq> ''__proto__''"
  shows "loadAgentsFromFile e (fst (snd (create_handler uuid write body agents d))) uuid
     = Some (new_PuppeteerAgent body)"
  using assms
  by (simp add: create_handler_def Let_def load_after_save assign_each_def
      new_PuppeteerAgent_def)

text \<open>A missing, empty or malformed file gives an empty registry.\<close>

lemma load_nothing:
  assumes "d = None \<or> d = Some Blank \<or> d = Some Malformed"
  shows "loadAgentsFromFile e d = Map.empty"
  using assms
  by (auto simp: loadAgentsFromFile_def loadAgentsFromFile_try_def await_def split: sum.splits)

end
